theory Spec2Isabelle
  imports Complex_Main "HOL-Library.Log_Nat" "HOL-Library.Word"
begin

section \<open>Python values used by \<open>app_transform.py\<close>\<close>

text \<open>
  The script computes with Python \<open>int\<close> (unbounded, modelled as \<open>int\<close>), Python
  \<open>float\<close> (IEEE 754 binary64) and numpy arrays. A float is modelled by the rational it
  denotes, or one of the three special values. Positive and negative zero are not
  distinguished: the script never observes the sign of a zero (a division by either
  raises, \<open>int\<close> of either is \<open>0\<close>).
\<close>

datatype py_float = Fin rat | PInf | NInf | NaN

datatype py_error =
  AttributeError | KeyError | TypeError | ValueError | ZeroDivisionError | OverflowError

type_synonym 'a result = "py_error + 'a"

definition bind_err :: "'a result \<Rightarrow> ('a \<Rightarrow> 'b result) \<Rightarrow> 'b result" where
  "bind_err m f = (case m of Inl e \<Rightarrow> Inl e | Inr x \<Rightarrow> f x)"

subsection \<open>Rounding to binary64\<close>

text \<open>
  \<open>ilog2 x\<close> is the binary exponent of a positive rational: the \<open>e\<close> with
  \<open>2 powi e \<le> x < 2 powi (e + 1)\<close>, found from the bit lengths of numerator and
  denominator.
\<close>

definition ilog2 :: "rat \<Rightarrow> int" where
  "ilog2 x = (let (p, q) = quotient_of x; d = bitlen p - bitlen q
              in if 2 powi d \<le> x then d else d - 1)"

text \<open>Rounding a rational to the nearest integer, ties to the even one.\<close>

definition rne :: "rat \<Rightarrow> int" where
  "rne y = (let f = \<lfloor>y\<rfloor>; r = y - of_int f
            in if r < 1 / 2 then f else if 1 / 2 < r then f + 1
               else if even f then f else f + 1)"

text \<open>
  A binary64 number has a 53-bit significand and an exponent of at least \<open>-1022\<close>
  (below that the numbers are subnormal and share the spacing \<open>2 powi (- 1074)\<close>).
  \<open>ulp a\<close> is the spacing of the binary64 numbers around \<open>a\<close>, \<open>mant a\<close> the
  significand of the nearest one and \<open>rmag a\<close> that number, for \<open>a \<ge> 0\<close>.
\<close>

definition expo :: "rat \<Rightarrow> int" where
  "expo a = max (ilog2 a) (- 1022)"

definition ulp :: "rat \<Rightarrow> rat" where
  "ulp a = 2 powi (expo a - 52)"

definition mant :: "rat \<Rightarrow> int" where
  "mant a = rne (a / ulp a)"

definition rmag :: "rat \<Rightarrow> rat" where
  "rmag a = of_int (mant a) * ulp a"

text \<open>
  The result of a float operation whose exact value is \<open>x\<close>: round to nearest, ties to
  even; a result that rounds to \<open>2 ^ 1024\<close> or more overflows to an infinity.
\<close>

definition round64 :: "rat \<Rightarrow> py_float" where
  "round64 x = (if x = 0 then Fin 0
     else let a = \<bar>x\<bar>
          in if 1023 < expo a \<or> (expo a = 1023 \<and> mant a = 2 ^ 53)
             then (if 0 < x then PInf else NInf)
             else Fin (if 0 < x then rmag a else - rmag a))"

subsection \<open>The float operations of the script\<close>

text \<open>\<open>float(n)\<close> of an int: correctly rounded, \<open>OverflowError\<close> when out of range.\<close>

definition float_of_int :: "int \<Rightarrow> py_float result" where
  "float_of_int n = (case round64 (of_int n) of Fin r \<Rightarrow> Inr (Fin r) | _ \<Rightarrow> Inl OverflowError)"

text \<open>\<open>x / y\<close> on floats: a zero divisor raises, whatever the dividend.\<close>

fun py_truediv :: "py_float \<Rightarrow> py_float \<Rightarrow> py_float result" where
  "py_truediv x (Fin b) =
     (if b = 0 then Inl ZeroDivisionError
      else Inr (case x of
                  Fin a \<Rightarrow> round64 (a / b)
                | PInf \<Rightarrow> if 0 < b then PInf else NInf
                | NInf \<Rightarrow> if 0 < b then NInf else PInf
                | NaN \<Rightarrow> NaN))"
| "py_truediv (Fin a) y = Inr (case y of NaN \<Rightarrow> NaN | _ \<Rightarrow> Fin 0)"
| "py_truediv x y = Inr NaN"

text \<open>\<open>x * y\<close> on floats never raises.\<close>

fun py_mul :: "py_float \<Rightarrow> py_float \<Rightarrow> py_float" where
  "py_mul (Fin a) (Fin b) = round64 (a * b)"
| "py_mul NaN y = NaN"
| "py_mul x NaN = NaN"
| "py_mul (Fin a) PInf = (if a = 0 then NaN else if 0 < a then PInf else NInf)"
| "py_mul (Fin a) NInf = (if a = 0 then NaN else if 0 < a then NInf else PInf)"
| "py_mul PInf (Fin b) = (if b = 0 then NaN else if 0 < b then PInf else NInf)"
| "py_mul NInf (Fin b) = (if b = 0 then NaN else if 0 < b then NInf else PInf)"
| "py_mul PInf PInf = PInf"
| "py_mul NInf NInf = PInf"
| "py_mul PInf NInf = NInf"
| "py_mul NInf PInf = NInf"

text \<open>\<open>int(x)\<close> of a float truncates towards zero; it raises on infinities and NaN.\<close>

fun py_int :: "py_float \<Rightarrow> int result" where
  "py_int (Fin r) = Inr (if 0 \<le> r then \<lfloor>r\<rfloor> else \<lceil>r\<rceil>)"
| "py_int NaN = Inl ValueError"
| "py_int x = Inl OverflowError"

text \<open>\<open>n <= t\<close> for an int and a number: Python compares the exact values.\<close>

fun int_le_float :: "int \<Rightarrow> py_float \<Rightarrow> bool" where
  "int_le_float n (Fin t) = (of_int n \<le> t)"
| "int_le_float n PInf = True"
| "int_le_float n y = False"

section \<open>Arrays and the shared dictionary\<close>

text \<open>
  A numpy array of shape \<open>(height, width, channels)\<close> and dtype \<open>uint8\<close>: its shape
  and its bytes as rows of pixels of channel values.
\<close>

record ndarray =
  shape :: "int \<times> int \<times> int"
  rows :: "8 word list list list"

text \<open>
  The values the script stores in \<open>img_vars\<close>. \<open>VPair h w\<close> is a tuple of two ints;
  \<open>VCoords x1 x2 y1 y2\<close> is the dictionary \<open>{'x1': x1, 'x2': x2, 'y1': y1, 'y2': y2}\<close>;
  \<open>VFloat\<close> holds a number (the int \<open>2\<close> of \<open>scale_tolerance\<close> and the float
  \<open>2.0\<close> are the same value to every operation of the script).
\<close>

datatype py_val =
  VNone | VBool bool | VInt int | VFloat py_float | VStr string
  | VPair int int | VArr ndarray | VCoords int int int int

text \<open>\<open>img_vars = defaultdict()\<close> has no default factory: it is a plain dictionary.\<close>

type_synonym img_vars = "string \<rightharpoonup> py_val"

section \<open>Initialize variables\<close>

definition ig_defined_res :: "int \<times> int" where
  "ig_defined_res = (1920, 1080)"

definition screen_factor :: py_float where
  "screen_factor = Fin (3 / 4)"

definition scale_tolerance :: py_float where
  "scale_tolerance = Fin 2"

section \<open>\<open>resize_type\<close>\<close>

text \<open>Line 55: \<open>float(img_res[1]) / float(img_res[0])\<close>.\<close>

definition img_aspect_ratio :: "int \<times> int \<Rightarrow> py_float result" where
  "img_aspect_ratio img_res =
     bind_err (float_of_int (snd img_res)) (\<lambda>w.
     bind_err (float_of_int (fst img_res)) (\<lambda>h.
       py_truediv w h))"

text \<open>
  Lines 61 to 71: scale the width and keep it when the height fits, otherwise scale the
  height. The result is \<open>(proposed_height, proposed_width)\<close>.
\<close>

definition propose_res :: "py_float \<Rightarrow> int \<times> int \<Rightarrow> py_float \<Rightarrow> (int \<times> int) result" where
  "propose_res aspect_ratio defined_res factor =
     bind_err (float_of_int (snd defined_res)) (\<lambda>dw.
     bind_err (py_int (py_mul factor dw)) (\<lambda>proposed_width.
     bind_err (float_of_int proposed_width) (\<lambda>pw.
     bind_err (py_truediv pw aspect_ratio) (\<lambda>q.
     bind_err (py_int q) (\<lambda>proposed_height.
       if proposed_height \<le> fst defined_res then Inr (proposed_height, proposed_width)
       else
         bind_err (float_of_int (fst defined_res)) (\<lambda>dh.
         bind_err (py_int (py_mul factor dh)) (\<lambda>proposed_height.
         bind_err (float_of_int proposed_height) (\<lambda>ph.
         bind_err (py_int (py_mul ph aspect_ratio)) (\<lambda>proposed_width.
           Inr (proposed_height, proposed_width))))))))))"

text \<open>Lines 74 and 75.\<close>

definition proposed_resize_dir :: "int \<times> int \<Rightarrow> int \<times> int \<Rightarrow> string" where
  "proposed_resize_dir proposed_res img_res =
     (if snd proposed_res \<le> snd img_res then ''shrink'' else ''scale'')"

text \<open>Line 79: \<open>int(float(proposed_res[1]) / float(img_res[1]))\<close>.\<close>

definition proposed_resize_factor :: "int \<times> int \<Rightarrow> int \<times> int \<Rightarrow> int result" where
  "proposed_resize_factor proposed_res img_res =
     bind_err (float_of_int (snd proposed_res)) (\<lambda>pw.
     bind_err (float_of_int (snd img_res)) (\<lambda>w.
     bind_err (py_truediv pw w) py_int))"

text \<open>
  Lines 81 to 85: the \<open>if\<close>/\<open>elif\<close> assigns \<open>resize_validity\<close> for the two directions
  and leaves the dictionary alone for any other string.
\<close>

definition set_resize_validity :: "string \<Rightarrow> int \<Rightarrow> py_float \<Rightarrow> img_vars \<Rightarrow> img_vars" where
  "set_resize_validity dir resize_factor tolerance vars =
     (if dir = ''scale'' then
        (if int_le_float resize_factor tolerance then vars(''resize_validity'' \<mapsto> VBool True)
         else vars(''resize_validity'' \<mapsto> VBool False))
      else if dir = ''shrink'' then vars(''resize_validity'' \<mapsto> VNone)
      else vars)"

text \<open>
  The whole function. \<open>cv2.imread\<close> is outside the script: its result, the decoded
  array or \<open>None\<close>, is the first argument in place of the file path. The module-level
  dictionary \<open>img_vars\<close> is passed in and returned updated; the function returns the
  dictionary itself. A key read in the body was assigned earlier in the same call, so
  the value read is the value bound there.
\<close>

definition resize_type ::
  "ndarray option \<Rightarrow> int \<times> int \<Rightarrow> py_float \<Rightarrow> py_float \<Rightarrow> img_vars \<Rightarrow> img_vars result" where
  "resize_type img_obj defined_res factor tolerance vars =
     (case img_obj of
        None \<Rightarrow> Inl AttributeError
      | Some img \<Rightarrow>
          let img_res = (fst (shape img), fst (snd (shape img)))
          in bind_err (img_aspect_ratio img_res) (\<lambda>aspect_ratio.
             bind_err (propose_res aspect_ratio defined_res factor) (\<lambda>proposed_res.
             let dir = proposed_resize_dir proposed_res img_res
             in bind_err (proposed_resize_factor proposed_res img_res) (\<lambda>resize_factor.
                Inr (set_resize_validity dir resize_factor tolerance
                  (vars(''img_obj'' \<mapsto> VArr img,
                        ''img_res'' \<mapsto> VPair (fst img_res) (snd img_res),
                        ''img_aspect_ratio'' \<mapsto> VFloat aspect_ratio,
                        ''defined_res'' \<mapsto> VPair (fst defined_res) (snd defined_res),
                        ''screen_factor'' \<mapsto> VFloat factor,
                        ''proposed_res'' \<mapsto> VPair (fst proposed_res) (snd proposed_res),
                        ''proposed_resize_dir'' \<mapsto> VStr dir,
                        ''scale_tolerance'' \<mapsto> VFloat tolerance,
                        ''proposed_resize_factor'' \<mapsto> VInt resize_factor)))))))"

section \<open>\<open>add_pip_vars\<close>\<close>

text \<open>Reading a key of the dictionary, and reading a stored value at the type the code uses it at.\<close>

definition lookup :: "img_vars \<Rightarrow> string \<Rightarrow> py_val result" where
  "lookup vars k = (case vars k of None \<Rightarrow> Inl KeyError | Some v \<Rightarrow> Inr v)"

definition as_pair :: "py_val \<Rightarrow> (int \<times> int) result" where
  "as_pair v = (case v of VPair a b \<Rightarrow> Inr (a, b) | _ \<Rightarrow> Inl TypeError)"

definition as_arr :: "py_val \<Rightarrow> ndarray result" where
  "as_arr v = (case v of VArr a \<Rightarrow> Inr a | _ \<Rightarrow> Inl TypeError)"

definition as_coords :: "py_val \<Rightarrow> (int \<times> int \<times> int \<times> int) result" where
  "as_coords v = (case v of VCoords x1 x2 y1 y2 \<Rightarrow> Inr (x1, x2, y1, y2) | _ \<Rightarrow> Inl TypeError)"

text \<open>
  \<open>np.full(shape, fill_value, dtype=np.uint8)\<close>: a negative dimension raises. An array
  too large to allocate, for which numpy raises as well, is outside the model.
\<close>

definition np_full :: "int \<times> int \<times> int \<Rightarrow> 8 word \<Rightarrow> ndarray result" where
  "np_full shp v =
     (case shp of (h, w, c) \<Rightarrow>
        if h < 0 \<or> w < 0 \<or> c < 0 then Inl ValueError
        else Inr \<lparr>shape = shp,
                  rows = replicate (nat h) (replicate (nat w) (replicate (nat c) v))\<rparr>)"

text \<open>
  Line 102, for one axis: \<open>np.asarray\<close> of a tuple of ints gives an array of numpy's
  default integer, taken here to be the 64-bit one; the subtraction wraps around, the
  division by \<open>2\<close> converts to binary64 and \<open>int\<close> truncates the quotient.
\<close>

definition int64 :: "int \<Rightarrow> int" where
  "int64 x = (x + 2 ^ 63) mod 2 ^ 64 - 2 ^ 63"

definition pip_offset :: "int \<Rightarrow> int \<Rightarrow> int result" where
  "pip_offset defined proposed =
     bind_err (float_of_int (int64 (defined - proposed))) (\<lambda>d.
     bind_err (py_truediv d (Fin 2)) py_int)"

definition add_pip_vars :: "img_vars \<Rightarrow> img_vars result" where
  "add_pip_vars vars =
     bind_err (lookup vars ''defined_res'') (\<lambda>v.
     bind_err (as_pair v) (\<lambda>(height, width).
     bind_err (np_full (height, width, 3) 128) (\<lambda>colored_image.
     let vars = vars(''canvas'' \<mapsto> VArr colored_image)
     in bind_err (lookup vars ''defined_res'') (\<lambda>d.
        bind_err (as_pair d) (\<lambda>defined_res.
        bind_err (lookup vars ''proposed_res'') (\<lambda>p.
        bind_err (as_pair p) (\<lambda>proposed_res.
        bind_err (pip_offset (fst defined_res) (fst proposed_res)) (\<lambda>y1.
        bind_err (pip_offset (snd defined_res) (snd proposed_res)) (\<lambda>x1.
        let x2 = x1 + snd proposed_res;
            y2 = y1 + fst proposed_res
        in Inr (vars(''pip_coords'' \<mapsto> VCoords x1 x2 y1 y2)))))))))))"

section \<open>\<open>process_image\<close>\<close>

text \<open>
  \<open>a[lo:hi]\<close> on an axis of length \<open>n\<close>: a negative bound counts from the end, both
  bounds are clipped to the axis; the result is the first index and the number of
  indices selected.
\<close>

definition np_slice :: "int \<Rightarrow> int \<Rightarrow> int \<Rightarrow> nat \<times> nat" where
  "np_slice n lo hi =
     (let start = (if lo < 0 then max (lo + n) 0 else min lo n);
          stop = (if hi < 0 then max (hi + n) 0 else min hi n)
      in (nat start, nat (stop - start)))"

text \<open>
  Assignment to a slice: the value is stretched along an axis where it has length one
  (numpy's broadcasting) and must have the length of the slice otherwise.
\<close>

definition broadcast :: "nat \<Rightarrow> 'a list \<Rightarrow> 'a list" where
  "broadcast n xs = (if length xs = n then xs else replicate n (hd xs))"

definition assign_span :: "nat \<Rightarrow> nat \<Rightarrow> ('a \<Rightarrow> 'b \<Rightarrow> 'a) \<Rightarrow> 'a list \<Rightarrow> 'b list \<Rightarrow> 'a list" where
  "assign_span start n f xs ys =
     take start xs @ map2 f (take n (drop start xs)) (broadcast n ys) @ drop (start + n) xs"

text \<open>\<open>a[y1:y2, x1:x2] = b\<close> for two arrays of three axes.\<close>

definition np_setitem :: "ndarray \<Rightarrow> int \<times> int \<Rightarrow> int \<times> int \<Rightarrow> ndarray \<Rightarrow> ndarray result" where
  "np_setitem a ys xs b =
     (case (shape a, shape b) of ((h, w, c), (bh, bw, bc)) \<Rightarrow>
        let (y, ny) = np_slice h (fst ys) (snd ys);
            (x, nx) = np_slice w (fst xs) (snd xs)
        in if (bh = int ny \<or> bh = 1) \<and> (bw = int nx \<or> bw = 1) \<and> (bc = c \<or> bc = 1)
           then Inr (a\<lparr>rows :=
                  assign_span y ny
                    (\<lambda>row brow. assign_span x nx (\<lambda>px bpx. broadcast (nat c) bpx) row brow)
                    (rows a) (rows b)\<rparr>)
           else Inl ValueError)"

text \<open>
  \<open>cv2.resize\<close> is outside the script and is a parameter here, called with the array
  and the size \<open>(width, height)\<close>. \<open>processed_img\<close> is the canvas object itself, not a
  copy, so the assignment also changes the array stored under \<open>canvas\<close>. The function
  hands \<open>processed_img\<close> to \<open>cv2.imwrite\<close>: the model returns it next to the
  dictionary. The output directory, the date and the counter only form the file name.
\<close>

definition process_image ::
  "(ndarray \<Rightarrow> int \<times> int \<Rightarrow> ndarray result) \<Rightarrow> img_vars \<Rightarrow> (img_vars \<times> ndarray) result" where
  "process_image cv2_resize vars =
     bind_err (lookup vars ''img_obj'') (\<lambda>img_obj.
     bind_err (lookup vars ''proposed_res'') (\<lambda>p.
     bind_err (as_pair p) (\<lambda>proposed_res.
     bind_err (as_arr img_obj) (\<lambda>img.
     bind_err (cv2_resize img (snd proposed_res, fst proposed_res)) (\<lambda>resized_img.
     bind_err (lookup vars ''canvas'') (\<lambda>c.
     bind_err (as_arr c) (\<lambda>canvas.
     bind_err (lookup vars ''pip_coords'') (\<lambda>pc.
     bind_err (as_coords pc) (\<lambda>(x1, x2, y1, y2).
     bind_err (np_setitem canvas (y1, y2) (x1, x2) resized_img) (\<lambda>processed_img.
       Inr (vars(''canvas'' \<mapsto> VArr processed_img), processed_img)))))))))))"

section \<open>The fit plan as the specification words it\<close>

text \<open>
  \<open>nearest64 x\<close> is the binary64 number nearest to \<open>x\<close>: the value of a floating-point
  operation whose exact result is \<open>x\<close>, as long as it does not overflow.
\<close>

definition nearest64 :: "rat \<Rightarrow> rat" where
  "nearest64 x = (if 0 \<le> x then rmag x else - rmag (- x))"

text \<open>
  Steps 1 to 4 of \<open>planFit\<close>, in the specification's words: the aspect ratio is the
  floating-point quotient of source width and height, the candidate width is the floor
  of screen factor times frame width, the candidate height the floor of candidate width
  over aspect ratio; when that height exceeds the frame height the candidate is
  recomputed from the frame height. Dimensions are pairs \<open>(height, width)\<close>.
\<close>

definition planFit_destination :: "int \<times> int \<Rightarrow> int \<times> int \<Rightarrow> rat \<Rightarrow> int \<times> int" where
  "planFit_destination source frame screenFactor =
     (let aspectRatio = nearest64 (of_int (snd source) / of_int (fst source));
          candidateWidth = \<lfloor>nearest64 (screenFactor * of_int (snd frame))\<rfloor>;
          candidateHeight = \<lfloor>nearest64 (of_int candidateWidth / aspectRatio)\<rfloor>
      in if candidateHeight \<le> fst frame then (candidateHeight, candidateWidth)
         else let candidateHeight = \<lfloor>nearest64 (screenFactor * of_int (fst frame))\<rfloor>;
                  candidateWidth = \<lfloor>nearest64 (of_int candidateHeight * aspectRatio)\<rfloor>
              in (candidateHeight, candidateWidth))"

section \<open>Halving towards zero\<close>

text \<open>
  The half of an integer with the fraction dropped, towards zero: the value that
  \<open>int\<close> makes of an exact quotient by two.
\<close>

definition half_towards_zero :: "int \<Rightarrow> int" where
  "half_towards_zero d = (if 0 \<le> d then d div 2 else - ((- d) div 2))"

section \<open>The fields of a fit plan\<close>

text \<open>
  The part of the dictionary that the specification calls the fit plan: destination
  dimensions, direction, resize factor and validity.
\<close>

definition fit_plan ::
  "img_vars \<Rightarrow> py_val option \<times> py_val option \<times> py_val option \<times> py_val option" where
  "fit_plan vars = (vars ''proposed_res'', vars ''proposed_resize_dir'',
                    vars ''proposed_resize_factor'', vars ''resize_validity'')"

section \<open>Properties of the rounding\<close>

lemma pow2_less_iff: "(2::rat) powi m < 2 powi n \<longleftrightarrow> m < n"
proof
  assume a: "(2::rat) powi m < 2 powi n"
  show "m < n"
  proof (rule ccontr)
    assume "\<not> m < n"
    then have "n \<le> m" by simp
    then have "(2::rat) powi n \<le> 2 powi m" by (intro power_int_increasing) simp_all
    with a show False by simp
  qed
next
  assume "m < n"
  then show "(2::rat) powi m < 2 powi n" by (intro power_int_strict_increasing) simp_all
qed

lemma pow2_le_iff: "(2::rat) powi m \<le> 2 powi n \<longleftrightarrow> m \<le> n"
  using pow2_less_iff [of n m] by (simp add: not_less [symmetric])

lemma pow2_pos: "(0::rat) < 2 powi n"
  by simp

lemma bitlen_powi_bounds:
  assumes "0 < p"
  shows "(2::rat) powi (bitlen p - 1) \<le> of_int p" and "of_int p < (2::rat) powi bitlen p"
proof -
  from bitlen_bounds [OF assms]
  have a: "2 ^ nat (bitlen p - 1) \<le> p" and b: "p < 2 ^ nat (bitlen p)" by auto
  have "bitlen p \<noteq> 0" using assms by (simp add: bitlen_eq_zero_iff)
  then have pos: "1 \<le> bitlen p" using bitlen_nonneg [of p] by simp
  have "(of_int (2 ^ nat (bitlen p - 1)) :: rat) \<le> of_int p" using a by (simp only: of_int_le_iff)
  then show "(2::rat) powi (bitlen p - 1) \<le> of_int p"
    using pos by (simp add: power_int_def)
  have "(of_int p :: rat) < of_int (2 ^ nat (bitlen p))" using b by (simp only: of_int_less_iff)
  then show "of_int p < (2::rat) powi bitlen p"
    using pos by (simp add: power_int_def)
qed

lemma ilog2_bounds:
  assumes "0 < x"
  shows "2 powi (ilog2 x) \<le> x" and "x < 2 powi (ilog2 x + 1)"
proof -
  obtain p q where pq: "quotient_of x = (p, q)" by (cases "quotient_of x")
  then have q: "0 < q" and x: "x = of_int p / of_int q"
    using quotient_of_denom_pos quotient_of_div by blast+
  have p: "0 < p" using assms q x by (simp add: zero_less_divide_iff)
  define d where "d = bitlen p - bitlen q"
  note bp = bitlen_powi_bounds [OF p] and bq = bitlen_powi_bounds [OF q]
  have qpos: "(0::rat) < of_int q" and ppos: "(0::rat) \<le> of_int p" using p q by simp_all
  have "of_int p / of_int q < (2::rat) powi bitlen p / 2 powi (bitlen q - 1)"
    by (rule frac_less [OF ppos bp(2) pow2_pos bq(1)])
  moreover have "(2::rat) powi (bitlen p - (bitlen q - 1)) = 2 powi bitlen p / 2 powi (bitlen q - 1)"
    by (rule power_int_diff) simp
  moreover have "bitlen p - (bitlen q - 1) = d + 1" by (simp add: d_def)
  ultimately have up: "x < 2 powi (d + 1)"
    by (simp only: x)
  have "(2::rat) powi (bitlen p - 1) / 2 powi bitlen q \<le> of_int p / of_int q"
    by (rule frac_le [OF ppos bp(1) qpos order_less_imp_le [OF bq(2)]])
  moreover have "(2::rat) powi (bitlen p - 1 - bitlen q) = 2 powi (bitlen p - 1) / 2 powi bitlen q"
    by (rule power_int_diff) simp
  moreover have "bitlen p - 1 - bitlen q = d - 1" by (simp add: d_def)
  ultimately have lo: "2 powi (d - 1) \<le> x"
    by (simp only: x)
  have e: "ilog2 x = (if 2 powi d \<le> x then d else d - 1)"
    by (simp add: ilog2_def pq d_def Let_def)
  show "2 powi (ilog2 x) \<le> x" using lo by (simp add: e)
  show "x < 2 powi (ilog2 x + 1)" using up by (auto simp add: e)
qed

lemma ilog2_mono:
  assumes "0 < x" "x \<le> y"
  shows "ilog2 x \<le> ilog2 y"
proof -
  have y: "0 < y" using assms by simp
  have "(2::rat) powi ilog2 x < 2 powi (ilog2 y + 1)"
    using ilog2_bounds(1) [OF assms(1)] ilog2_bounds(2) [OF y] assms(2) by simp
  then show ?thesis by (simp add: pow2_less_iff)
qed


lemma rne_of_int: "rne (of_int n) = n"
  by (simp add: rne_def)

lemma rne_floor_le: "\<lfloor>y\<rfloor> \<le> rne y"
  by (simp add: rne_def Let_def)

lemma rne_le_floor: "rne y \<le> \<lfloor>y\<rfloor> + 1"
  by (simp add: rne_def Let_def)

lemma rne_mono:
  assumes "x \<le> y"
  shows "rne x \<le> rne y"
proof (cases "\<lfloor>x\<rfloor> = \<lfloor>y\<rfloor>")
  case True
  have "x - of_int \<lfloor>y\<rfloor> \<le> y - of_int \<lfloor>y\<rfloor>" using assms by simp
  then show ?thesis
    by (auto simp add: rne_def Let_def True)
next
  case False
  then have "\<lfloor>x\<rfloor> < \<lfloor>y\<rfloor>" using floor_mono [OF assms] by simp
  then have "rne x \<le> \<lfloor>y\<rfloor>" using rne_le_floor [of x] by simp
  then show ?thesis using rne_floor_le [of y] by simp
qed

lemma rne_le: "y \<le> of_int n \<Longrightarrow> rne y \<le> n"
  using rne_mono [of y "of_int n"] by (simp add: rne_of_int)

lemma rne_ge: "of_int n \<le> y \<Longrightarrow> n \<le> rne y"
  using rne_mono [of "of_int n" y] by (simp add: rne_of_int)

lemma ulp_pos: "0 < ulp a"
  by (simp add: ulp_def)

lemma expo_mono: "0 < a \<Longrightarrow> a \<le> b \<Longrightarrow> expo a \<le> expo b"
  using ilog2_mono [of a b] by (simp add: expo_def)

lemma below_next_binade:
  assumes "0 < a"
  shows "a < 2 powi (expo a + 1)"
proof -
  have "a < 2 powi (ilog2 a + 1)" by (rule ilog2_bounds(2) [OF assms])
  also have "\<dots> \<le> 2 powi (expo a + 1)" by (simp add: pow2_le_iff expo_def)
  finally show ?thesis .
qed

lemma pow2_split: "(2::rat) powi (e + 1) = 2 ^ 53 * 2 powi (e - 52)"
proof -
  have "(2::rat) powi (53 + (e - 52)) = 2 powi 53 * 2 powi (e - 52)"
    by (rule power_int_add) simp
  moreover have "53 + (e - 52) = e + 1" by simp
  ultimately show ?thesis by simp
qed

lemma pow2_split': "(2::rat) powi e = 2 ^ 52 * 2 powi (e - 52)"
proof -
  have "(2::rat) powi (52 + (e - 52)) = 2 powi 52 * 2 powi (e - 52)"
    by (rule power_int_add) simp
  moreover have "52 + (e - 52) = e" by simp
  ultimately show ?thesis by simp
qed

lemma mant_le:
  assumes "0 < a"
  shows "mant a \<le> 2 ^ 53"
proof -
  have "a < 2 ^ 53 * ulp a"
    using below_next_binade [OF assms] by (simp add: pow2_split ulp_def)
  then have "a / ulp a \<le> of_int (2 ^ 53)"
    using ulp_pos [of a] by (simp add: pos_divide_le_eq)
  then show ?thesis unfolding mant_def by (rule rne_le)
qed

lemma mant_ge:
  assumes "0 < a" "- 1022 \<le> ilog2 a"
  shows "2 ^ 52 \<le> mant a"
proof -
  have e: "expo a = ilog2 a" using assms(2) by (simp add: expo_def)
  have "2 ^ 52 * ulp a \<le> a"
    using ilog2_bounds(1) [OF assms(1)] pow2_split' [of "ilog2 a"] by (simp add: ulp_def e)
  then have "of_int (2 ^ 52) \<le> a / ulp a"
    using ulp_pos [of a] by (simp add: pos_le_divide_eq)
  then show ?thesis unfolding mant_def by (rule rne_ge)
qed

lemma mant_nonneg: "0 \<le> a \<Longrightarrow> 0 \<le> mant a"
  unfolding mant_def using ulp_pos [of a] by (intro rne_ge) simp

lemma rmag_nonneg: "0 \<le> a \<Longrightarrow> 0 \<le> rmag a"
  using mant_nonneg [of a] ulp_pos [of a] by (simp add: rmag_def)

lemma rmag_le_binade:
  assumes "0 < a"
  shows "rmag a \<le> 2 powi (expo a + 1)"
proof -
  have "(of_int (mant a) :: rat) \<le> of_int (2 ^ 53)"
    using mant_le [OF assms] by (simp only: of_int_le_iff)
  then have "of_int (mant a) * ulp a \<le> 2 ^ 53 * ulp a"
    using ulp_pos [of a] by simp
  then show ?thesis by (simp add: rmag_def pow2_split ulp_def)
qed

lemma rmag_ge_binade:
  assumes "0 < a" "- 1022 \<le> ilog2 a"
  shows "2 powi (expo a) \<le> rmag a"
proof -
  have "(of_int (2 ^ 52) :: rat) \<le> of_int (mant a)"
    using mant_ge [OF assms] by (simp only: of_int_le_iff)
  then have "2 ^ 52 * ulp a \<le> of_int (mant a) * ulp a"
    using ulp_pos [of a] by simp
  then show ?thesis using pow2_split' [of "expo a"] by (simp add: rmag_def ulp_def)
qed

lemma rmag_mono:
  assumes "0 < a" "a \<le> b"
  shows "rmag a \<le> rmag b"
proof (cases "expo a = expo b")
  case True
  then have u: "ulp a = ulp b" by (simp add: ulp_def)
  have "a / ulp b \<le> b / ulp b"
    using assms(2) ulp_pos [of b] by (simp add: divide_right_mono)
  then have "mant a \<le> mant b" unfolding mant_def u by (rule rne_mono)
  then have "(of_int (mant a) :: rat) \<le> of_int (mant b)" by simp
  then show ?thesis using ulp_pos [of b] by (simp add: rmag_def u)
next
  case False
  then have lt: "expo a < expo b" using expo_mono [OF assms] by simp
  have b: "0 < b" using assms by simp
  have "- 1022 \<le> expo a" by (simp add: expo_def)
  then have "- 1022 < expo b" using lt by simp
  then have ib: "- 1022 \<le> ilog2 b" by (simp add: expo_def split: if_splits)
  have "rmag a \<le> 2 powi (expo a + 1)" by (rule rmag_le_binade [OF assms(1)])
  also have "\<dots> \<le> 2 powi (expo b)" using lt by (simp add: pow2_le_iff)
  also have "\<dots> \<le> rmag b" by (rule rmag_ge_binade [OF b ib])
  finally show ?thesis .
qed

lemma rmag_exact:
  assumes m: "0 < m" "m < 2 ^ 53" and k: "- 1074 \<le> k" and a: "a = of_int m * 2 powi k"
  shows "rmag a = a"
proof -
  have apos: "0 < a" using m(1) by (simp add: a)
  have "(of_int m :: rat) < of_int (2 ^ 53)" using m(2) by (simp only: of_int_less_iff)
  then have "a < 2 ^ 53 * 2 powi k" by (simp add: a)
  also have "\<dots> = 2 powi (k + 53)" using pow2_split [of "k + 52"] by (simp add: add.commute)
  finally have "(2::rat) powi ilog2 a < 2 powi (k + 53)"
    using ilog2_bounds(1) [OF apos] by simp
  then have "ilog2 a < k + 53" by (simp only: pow2_less_iff)
  then have ek: "expo a - 52 \<le> k" using k by (simp add: expo_def)
  define j where "j = nat (k - (expo a - 52))"
  have "(2::rat) powi (k - (expo a - 52)) = 2 powi k / 2 powi (expo a - 52)"
    by (rule power_int_diff) simp
  moreover have "(2::rat) powi (k - (expo a - 52)) = 2 ^ j"
    using ek by (simp add: j_def power_int_def)
  ultimately have q: "2 powi k / ulp a = 2 ^ j" by (simp add: ulp_def)
  have "a / ulp a = of_int m * (2 powi k / ulp a)" by (simp add: a)
  also have "\<dots> = of_int (m * 2 ^ j)" by (simp add: q)
  finally have "mant a = m * 2 ^ j" by (simp only: mant_def rne_of_int)
  then have "rmag a = of_int m * (2 ^ j * ulp a)" by (simp add: rmag_def)
  also have "2 ^ j * ulp a = 2 powi k"
    using q ulp_pos [of a] by (simp add: field_simps)
  finally show ?thesis by (simp add: a)
qed

lemma rmag_zero: "rmag 0 = 0"
  by (simp add: rmag_def mant_def rne_def)

lemma round64_nonneg:
  assumes "0 \<le> x" "x < 2 powi 1023"
  shows "round64 x = Fin (rmag x)"
proof (cases "x = 0")
  case True
  then show ?thesis by (simp add: round64_def rmag_zero)
next
  case False
  then have x: "0 < x" using assms(1) by simp
  have "(2::rat) powi ilog2 x < 2 powi 1023"
    using ilog2_bounds(1) [OF x] assms(2) by simp
  then have "ilog2 x < 1023" by (simp only: pow2_less_iff)
  then have "expo x < 1023" by (simp add: expo_def)
  then show ?thesis using x by (simp add: round64_def Let_def)
qed

lemma rmag_mono0:
  assumes "0 \<le> a" "a \<le> b"
  shows "rmag a \<le> rmag b"
proof (cases "a = 0")
  case True
  then show ?thesis using rmag_nonneg [of b] assms by (simp add: rmag_zero)
next
  case False
  then show ?thesis using assms by (intro rmag_mono) simp_all
qed

lemma rmag_of_int:
  assumes "0 \<le> n" "n < 2 ^ 53"
  shows "rmag (of_int n) = of_int n"
proof (cases "n = 0")
  case True
  then show ?thesis by (simp add: rmag_zero)
next
  case False
  then have "0 < n" using assms by simp
  then show ?thesis using assms(2) by (intro rmag_exact [where m = n and k = 0]) simp_all
qed

lemma rmag_pow2:
  assumes "- 1074 \<le> k"
  shows "rmag (2 powi k) = 2 powi k"
  using assms by (intro rmag_exact [where m = 1 and k = k]) simp_all

lemma rmag_le_int:
  assumes "0 \<le> x" "x \<le> of_int n" "n < 2 ^ 53"
  shows "rmag x \<le> of_int n"
proof -
  have n: "0 \<le> n" using assms(1,2) by (simp add: of_int_0_le_iff [symmetric] del: of_int_0_le_iff)
  have "rmag x \<le> rmag (of_int n)" by (rule rmag_mono0 [OF assms(1,2)])
  then show ?thesis by (simp add: rmag_of_int [OF n assms(3)])
qed

lemma rmag_ge_int:
  assumes "0 \<le> n" "of_int n \<le> x" "n < 2 ^ 53"
  shows "of_int n \<le> rmag x"
proof -
  have "rmag (of_int n) \<le> rmag x" using assms(1,2) by (intro rmag_mono0) simp_all
  then show ?thesis by (simp add: rmag_of_int [OF assms(1,3)])
qed

lemma float_of_int_exact:
  assumes "0 \<le> n" "n < 2 ^ 53"
  shows "float_of_int n = Inr (Fin (of_int n))"
proof -
  have "(of_int n :: rat) < of_int (2 ^ 53)" using assms(2) by (simp only: of_int_less_iff)
  also have "\<dots> < 2 powi 1023" by simp
  finally have "round64 (of_int n) = Fin (rmag (of_int n))"
    using assms(1) by (intro round64_nonneg) simp_all
  then show ?thesis by (simp add: float_of_int_def rmag_of_int [OF assms])
qed


lemma nearest64_nonneg: "0 \<le> x \<Longrightarrow> nearest64 x = rmag x"
  by (simp add: nearest64_def)

lemma bind_err_Inr: "bind_err (Inr x) f = f x"
  by (simp add: bind_err_def)

lemma bind_err_Inl: "bind_err (Inl e) f = Inl e"
  by (simp add: bind_err_def)

lemma int_bound_rat: "n < 2 ^ 53 \<Longrightarrow> (of_int n :: rat) < 2 ^ 53"
proof -
  assume "n < 2 ^ 53"
  then have "(of_int n :: rat) < of_int (2 ^ 53)" by (simp only: of_int_less_iff)
  then show ?thesis by simp
qed

lemma aspect_bounds:
  assumes "0 < h" "h < 2 ^ 53" "0 < w" "w < 2 ^ 53"
  shows "2 powi (- 53) \<le> rmag (of_int w / of_int h)"
    and "rmag (of_int w / of_int h) < 2 ^ 53"
proof -
  let ?q = "(of_int w / of_int h) :: rat"
  have hr: "(1::rat) \<le> of_int h" "(of_int h :: rat) < 2 ^ 53"
    using assms(1) int_bound_rat [OF assms(2)] by simp_all
  have wr: "(1::rat) \<le> of_int w" using assms(3) by simp
  have q0: "0 \<le> ?q" using assms by simp
  have "?q \<le> of_int w" using hr(1) wr by (simp add: divide_le_eq)
  then have "rmag ?q \<le> of_int w" by (rule rmag_le_int [OF q0 _ assms(4)])
  then show "rmag ?q < 2 ^ 53" using int_bound_rat [OF assms(4)] by simp
  have "1 / 2 ^ 53 \<le> 1 / (of_int h :: rat)"
    using hr by (intro divide_left_mono) simp_all
  also have "\<dots> \<le> ?q" using wr hr(1) by (simp add: divide_right_mono)
  finally have "2 powi (- 53) \<le> ?q" by (simp add: power_int_minus_divide)
  then have "rmag (2 powi (- 53)) \<le> rmag ?q" by (intro rmag_mono0) simp_all
  moreover have "rmag (2 powi (- 53)) = 2 powi (- 53)" by (rule rmag_pow2) simp
  ultimately show "2 powi (- 53) \<le> rmag ?q" by (simp only:)
qed

lemma img_aspect_ratio_eq:
  assumes "0 < h" "h < 2 ^ 53" "0 < w" "w < 2 ^ 53"
  shows "img_aspect_ratio (h, w) = Inr (Fin (rmag (of_int w / of_int h)))"
proof -
  let ?q = "(of_int w / of_int h) :: rat"
  have q0: "0 \<le> ?q" using assms by simp
  have "?q \<le> of_int w" using assms(1,3) by (simp add: divide_le_eq)
  also have "\<dots> < 2 ^ 53" by (rule int_bound_rat [OF assms(4)])
  also have "\<dots> < (2::rat) powi 1023" by simp
  finally have "round64 ?q = Fin (rmag ?q)" by (rule round64_nonneg [OF q0])
  then show ?thesis
    using assms by (simp add: img_aspect_ratio_def float_of_int_exact bind_err_Inr)
qed

lemma scaled_side:
  assumes "0 < d" "d < 2 ^ 53" "0 < s" "s \<le> 1"
  shows "py_int (py_mul (Fin s) (Fin (of_int d))) = Inr \<lfloor>rmag (s * of_int d)\<rfloor>"
    and "0 \<le> \<lfloor>rmag (s * of_int d)\<rfloor>" and "\<lfloor>rmag (s * of_int d)\<rfloor> \<le> d"
proof -
  let ?x = "s * of_int d"
  have x0: "0 \<le> ?x" using assms by simp
  have xd: "?x \<le> of_int d" using assms by (simp add: mult_left_le_one_le)
  have "?x < 2 ^ 53" using xd int_bound_rat [OF assms(2)] by simp
  also have "\<dots> < (2::rat) powi 1023" by simp
  finally have "round64 ?x = Fin (rmag ?x)" by (rule round64_nonneg [OF x0])
  then show "py_int (py_mul (Fin s) (Fin (of_int d))) = Inr \<lfloor>rmag ?x\<rfloor>"
    using rmag_nonneg [OF x0] by simp
  show "0 \<le> \<lfloor>rmag ?x\<rfloor>" using rmag_nonneg [OF x0] by simp
  have "rmag ?x \<le> of_int d" by (rule rmag_le_int [OF x0 xd assms(2)])
  then show "\<lfloor>rmag ?x\<rfloor> \<le> d" by (simp add: floor_le_iff)
qed

lemma big_quotient:
  assumes "0 \<le> n" "n < 2 ^ 53" "2 powi (- 53) \<le> a"
  shows "(of_int n :: rat) / a < 2 powi 1023"
proof -
  have a: "0 < a" using assms(3) pow2_pos [of "- 53"] by (rule_tac order_less_le_trans)
  have "(of_int n :: rat) / a \<le> of_int n / 2 powi (- 53)"
    using assms(1,3) by (intro divide_left_mono) (simp_all add: a)
  also have "\<dots> = of_int n * 2 ^ 53" by (simp add: power_int_minus_divide)
  also have "\<dots> < 2 ^ 53 * 2 ^ 53" using int_bound_rat [OF assms(2)] by simp
  also have "\<dots> < (2::rat) powi 1023" by simp
  finally show ?thesis .
qed

lemma big_product:
  assumes "0 \<le> n" "n < 2 ^ 53" "0 \<le> a" "a < 2 ^ 53"
  shows "(of_int n :: rat) * a < 2 powi 1023"
proof -
  have "(of_int n :: rat) * a \<le> 2 ^ 53 * 2 ^ 53"
    using assms int_bound_rat [OF assms(2)] by (intro mult_mono) simp_all
  also have "\<dots> < (2::rat) powi 1023" by simp
  finally show ?thesis .
qed


lemma planFit_destination_unfold:
  assumes "0 < h" "h < 2 ^ 53" "0 < w" "w < 2 ^ 53"
    and "0 < fh" "fh < 2 ^ 53" "0 < fw" "fw < 2 ^ 53" "0 < s" "s \<le> 1"
  defines "a \<equiv> rmag (of_int w / of_int h)"
  defines "cw \<equiv> \<lfloor>rmag (s * of_int fw)\<rfloor>"
  defines "ch \<equiv> \<lfloor>rmag (of_int cw / a)\<rfloor>"
  defines "ch1 \<equiv> \<lfloor>rmag (s * of_int fh)\<rfloor>"
  defines "cw1 \<equiv> \<lfloor>rmag (of_int ch1 * a)\<rfloor>"
  shows "planFit_destination (h, w) (fh, fw) s = (if ch \<le> fh then (ch, cw) else (ch1, cw1))"
proof -
  have a: "0 < a"
    using aspect_bounds(1) [OF assms(1-4)] pow2_pos [of "- 53"]
    unfolding a_def by (rule_tac order_less_le_trans)
  have cw: "0 \<le> cw" unfolding cw_def by (rule scaled_side(2) [OF assms(7,8,9,10)])
  have ch1: "0 \<le> ch1" unfolding ch1_def by (rule scaled_side(2) [OF assms(5,6,9,10)])
  have n1: "nearest64 (of_int w / of_int h) = a"
    using assms(1,3) by (simp add: nearest64_nonneg a_def)
  have n2: "\<lfloor>nearest64 (s * of_int fw)\<rfloor> = cw"
    using assms(7,9) by (simp add: nearest64_nonneg cw_def)
  have n3: "\<lfloor>nearest64 (of_int cw / a)\<rfloor> = ch"
    using a cw by (simp add: nearest64_nonneg ch_def)
  have n4: "\<lfloor>nearest64 (s * of_int fh)\<rfloor> = ch1"
    using assms(5,9) by (simp add: nearest64_nonneg ch1_def)
  have n5: "\<lfloor>nearest64 (of_int ch1 * a)\<rfloor> = cw1"
    using a ch1 by (simp add: nearest64_nonneg cw1_def)
  show ?thesis
    by (simp only: planFit_destination_def Let_def fst_conv snd_conv n1 n2 n3 n4 n5)
qed

lemma planFit_destination_fits:
  assumes "0 < h" "h < 2 ^ 53" "0 < w" "w < 2 ^ 53"
    and "0 < fh" "fh < 2 ^ 53" "0 < fw" "fw < 2 ^ 53" "0 < s" "s \<le> 1"
  shows "0 \<le> fst (planFit_destination (h, w) (fh, fw) s)"
    and "fst (planFit_destination (h, w) (fh, fw) s) \<le> fh"
    and "0 \<le> snd (planFit_destination (h, w) (fh, fw) s)"
    and "snd (planFit_destination (h, w) (fh, fw) s) \<le> fw"
proof -
  define a where "a = rmag (of_int w / of_int h)"
  define cw where "cw = \<lfloor>rmag (s * of_int fw)\<rfloor>"
  define ch where "ch = \<lfloor>rmag (of_int cw / a)\<rfloor>"
  define ch1 where "ch1 = \<lfloor>rmag (s * of_int fh)\<rfloor>"
  define cw1 where "cw1 = \<lfloor>rmag (of_int ch1 * a)\<rfloor>"
  have eq: "planFit_destination (h, w) (fh, fw) s = (if ch \<le> fh then (ch, cw) else (ch1, cw1))"
    unfolding a_def cw_def ch_def ch1_def cw1_def by (rule planFit_destination_unfold [OF assms])
  have a: "0 < a"
    using aspect_bounds(1) [OF assms(1-4)] pow2_pos [of "- 53"]
    unfolding a_def by (rule_tac order_less_le_trans)
  have cw: "0 \<le> cw" "cw \<le> fw"
    unfolding cw_def by (rule scaled_side(2,3) [OF assms(7,8,9,10)])+
  have ch1: "0 \<le> ch1" "ch1 \<le> fh"
    unfolding ch1_def by (rule scaled_side(2,3) [OF assms(5,6,9,10)])+
  have ch: "0 \<le> ch"
    unfolding ch_def using a cw(1) by (intro zero_le_floor [THEN iffD2] rmag_nonneg) simp
  have cw1: "0 \<le> cw1"
    unfolding cw1_def using a ch1(1) by (intro zero_le_floor [THEN iffD2] rmag_nonneg) simp
  have cwb: "cw < 2 ^ 53" using cw(2) assms(8) by simp
  have fb: "cw1 \<le> cw" if "\<not> ch \<le> fh"
  proof -
    have "\<not> of_int cw / a \<le> of_int fh"
    proof
      assume le: "of_int cw / a \<le> of_int fh"
      have "0 \<le> of_int cw / a" using a cw(1) by simp
      then have "rmag (of_int cw / a) \<le> of_int fh" by (rule rmag_le_int [OF _ le assms(6)])
      then have "ch \<le> fh" by (simp add: ch_def floor_le_iff)
      with that show False by simp
    qed
    then have "of_int fh < of_int cw / a" by simp
    then have "of_int fh * a < of_int cw" using a by (simp add: pos_less_divide_eq)
    moreover have "of_int ch1 * a \<le> of_int fh * a"
      using ch1(2) a by (intro mult_right_mono) simp_all
    ultimately have le: "of_int ch1 * a \<le> of_int cw" by simp
    have "0 \<le> of_int ch1 * a" using a ch1(1) by simp
    then have "rmag (of_int ch1 * a) \<le> of_int cw" by (rule rmag_le_int [OF _ le cwb])
    then show ?thesis by (simp add: cw1_def floor_le_iff)
  qed
  show "0 \<le> fst (planFit_destination (h, w) (fh, fw) s)" using ch ch1(1) by (simp add: eq)
  show "fst (planFit_destination (h, w) (fh, fw) s) \<le> fh" using ch1(2) by (simp add: eq)
  show "0 \<le> snd (planFit_destination (h, w) (fh, fw) s)" using cw(1) cw1 by (simp add: eq)
  show "snd (planFit_destination (h, w) (fh, fw) s) \<le> fw" using cw(2) fb by (auto simp add: eq)
qed

lemma propose_res_eq:
  assumes "0 < h" "h < 2 ^ 53" "0 < w" "w < 2 ^ 53"
    and "0 < fh" "fh < 2 ^ 53" "0 < fw" "fw < 2 ^ 53" "0 < s" "s \<le> 1"
  shows "propose_res (Fin (rmag (of_int w / of_int h))) (fh, fw) (Fin s)
         = Inr (planFit_destination (h, w) (fh, fw) s)"
proof -
  define a where "a = rmag (of_int w / of_int h)"
  define cw where "cw = \<lfloor>rmag (s * of_int fw)\<rfloor>"
  define ch where "ch = \<lfloor>rmag (of_int cw / a)\<rfloor>"
  define ch1 where "ch1 = \<lfloor>rmag (s * of_int fh)\<rfloor>"
  define cw1 where "cw1 = \<lfloor>rmag (of_int ch1 * a)\<rfloor>"
  have eq: "planFit_destination (h, w) (fh, fw) s = (if ch \<le> fh then (ch, cw) else (ch1, cw1))"
    unfolding a_def cw_def ch_def ch1_def cw1_def by (rule planFit_destination_unfold [OF assms])
  have alo: "2 powi (- 53) \<le> a" and ahi: "a < 2 ^ 53"
    unfolding a_def by (rule aspect_bounds [OF assms(1-4)])+
  have a: "0 < a" using alo pow2_pos [of "- 53"] by (rule_tac order_less_le_trans)
  have cw: "0 \<le> cw" "cw \<le> fw"
    unfolding cw_def by (rule scaled_side(2,3) [OF assms(7,8,9,10)])+
  have ch1: "0 \<le> ch1" "ch1 \<le> fh"
    unfolding ch1_def by (rule scaled_side(2,3) [OF assms(5,6,9,10)])+
  have cwb: "cw < 2 ^ 53" using cw(2) assms(8) by simp
  have ch1b: "ch1 < 2 ^ 53" using ch1(2) assms(6) by simp
  have f1: "float_of_int fw = Inr (Fin (of_int fw))"
    using assms(7,8) by (intro float_of_int_exact) simp_all
  have f2: "py_int (py_mul (Fin s) (Fin (of_int fw))) = Inr cw"
    unfolding cw_def by (rule scaled_side(1) [OF assms(7,8,9,10)])
  have f3: "float_of_int cw = Inr (Fin (of_int cw))"
    by (rule float_of_int_exact [OF cw(1) cwb])
  have q0: "0 \<le> of_int cw / a" using a cw(1) by simp
  have "round64 (of_int cw / a) = Fin (rmag (of_int cw / a))"
    by (rule round64_nonneg [OF q0 big_quotient [OF cw(1) cwb alo]])
  then have f4: "py_truediv (Fin (of_int cw)) (Fin a) = Inr (Fin (rmag (of_int cw / a)))"
    using a by simp
  have f5: "py_int (Fin (rmag (of_int cw / a))) = Inr ch"
    using rmag_nonneg [OF q0] by (simp add: ch_def)
  have f6: "float_of_int fh = Inr (Fin (of_int fh))"
    using assms(5,6) by (intro float_of_int_exact) simp_all
  have f7: "py_int (py_mul (Fin s) (Fin (of_int fh))) = Inr ch1"
    unfolding ch1_def by (rule scaled_side(1) [OF assms(5,6,9,10)])
  have f8: "float_of_int ch1 = Inr (Fin (of_int ch1))"
    by (rule float_of_int_exact [OF ch1(1) ch1b])
  have p0: "0 \<le> of_int ch1 * a" using a ch1(1) by simp
  have "round64 (of_int ch1 * a) = Fin (rmag (of_int ch1 * a))"
    using a ahi by (intro round64_nonneg [OF p0] big_product [OF ch1(1) ch1b]) simp_all
  then have f9: "py_int (py_mul (Fin (of_int ch1)) (Fin a)) = Inr cw1"
    using rmag_nonneg [OF p0] by (simp add: cw1_def)
  show ?thesis
    unfolding eq a_def [symmetric]
    by (simp add: propose_res_def bind_err_Inr f1 f2 f3 f4 f5 f6 f7 f8 f9 del: py_int.simps py_mul.simps py_truediv.simps)
qed


lemma floor_rmag_between:
  assumes "0 \<le> q" "q < 2 ^ 53" "of_int q \<le> x" "x \<le> r" "rmag r = r" "r < of_int q + 1"
  shows "\<lfloor>rmag x\<rfloor> = q"
proof -
  have x0: "0 \<le> x" using assms(1,3) by (simp add: order_trans [of 0 "of_int q" x])
  have lo: "of_int q \<le> rmag x" by (rule rmag_ge_int [OF assms(1,3,2)])
  have "rmag x \<le> rmag r" by (rule rmag_mono0 [OF x0 assms(4)])
  then have hi: "rmag x < of_int q + 1" using assms(5,6) by simp
  show ?thesis using lo hi by (simp add: floor_eq_iff)
qed

lemma quotient_gap:
  assumes "0 \<le> p" "0 < w"
  shows "(of_int p :: rat) / of_int w \<le> of_int (p div w) + 1 - 1 / of_int w"
    and "(of_int (p div w) :: rat) \<le> of_int p / of_int w"
proof -
  have m: "p mod w < w" using assms(2) by simp
  have e: "p div w * w + p mod w = p" by (rule div_mult_mod_eq)
  have "(p div w + 1) * w = p div w * w + w" by (simp add: distrib_right)
  with e m have "p + 1 \<le> (p div w + 1) * w" by linarith
  then have "(of_int (p + 1) :: rat) \<le> of_int ((p div w + 1) * w)" by (simp only: of_int_le_iff)
  then have "(of_int p + 1 :: rat) \<le> (of_int (p div w) + 1) * of_int w" by simp
  then have "(of_int p + 1 :: rat) / of_int w \<le> of_int (p div w) + 1"
    using assms(2) by (simp add: pos_divide_le_eq)
  then show "(of_int p :: rat) / of_int w \<le> of_int (p div w) + 1 - 1 / of_int w"
    by (simp add: add_divide_distrib)
  have "0 \<le> p mod w" using assms(2) by simp
  with e have "p div w * w \<le> p" by linarith
  then have "(of_int (p div w * w) :: rat) \<le> of_int p" by (simp only: of_int_le_iff)
  then show "(of_int (p div w) :: rat) \<le> of_int p / of_int w"
    using assms(2) by (simp add: pos_le_divide_eq)
qed

lemma rne_less:
  assumes "y < of_int N - 1 / 2"
  shows "rne y < N"
proof -
  have "y < of_int N" using assms by simp
  then have f: "\<lfloor>y\<rfloor> < N" by (simp add: floor_less_iff)
  show ?thesis
  proof (cases "\<lfloor>y\<rfloor> + 1 < N")
    case True
    then show ?thesis using rne_le_floor [of y] by simp
  next
    case False
    then have e: "\<lfloor>y\<rfloor> = N - 1" using f by simp
    have "y - of_int \<lfloor>y\<rfloor> < 1 / 2" using assms by (simp add: e)
    then have "rne y = \<lfloor>y\<rfloor>" by (simp add: rne_def Let_def)
    then show ?thesis using f by simp
  qed
qed

lemma floor_rmag_div:
  assumes "0 \<le> p" "p < 2 ^ 53" "0 < w" "w < 2 ^ 53"
  shows "\<lfloor>rmag (of_int p / of_int w)\<rfloor> = p div w"
proof (cases "p < w")
  case True
  then have q: "p div w = 0" using assms(1) by simp
  define r :: rat where "r = of_int (2 ^ 53 - 1) * 2 powi (- 53)"
  have rr: "rmag r = r" by (rule rmag_exact [where m = "2 ^ 53 - 1" and k = "- 53"]) (simp_all add: r_def)
  have r1: "r = 1 - 1 / 2 ^ 53" by (simp add: r_def power_int_minus_divide field_simps)
  have b: "1 / 2 ^ 53 \<le> 1 / (of_int w :: rat)"
    using assms(3) int_bound_rat [OF assms(4)] by (intro divide_left_mono) simp_all
  have "(of_int p :: rat) / of_int w \<le> 0 + 1 - 1 / of_int w"
    using quotient_gap(1) [OF assms(1,3)] by (simp only: q of_int_0)
  with b have "(of_int p :: rat) / of_int w \<le> r" unfolding r1 by linarith
  moreover have "r < of_int 0 + 1" by (simp add: r1)
  moreover have "(of_int 0 :: rat) \<le> of_int p / of_int w" using assms(1,3) by simp
  ultimately have "\<lfloor>rmag (of_int p / of_int w)\<rfloor> = 0"
    using rr by (intro floor_rmag_between [where r = r]) simp_all
  then show ?thesis by (simp add: q)
next
  case False
  then have wp: "w \<le> p" by simp
  define x :: rat where "x = of_int p / of_int w"
  define q where "q = p div w"
  define e where "e = ilog2 x"
  have wr: "(0::rat) < of_int w" using assms(3) by simp
  have x1: "1 \<le> x" using wp wr by (simp add: x_def pos_le_divide_eq)
  have x0: "0 < x" using x1 by simp
  have xp: "x \<le> of_int p" using assms(1,3) by (simp add: x_def divide_le_eq mult_le_cancel_left1)
  have q0: "0 \<le> q" using assms(1,3) by (simp add: q_def pos_imp_zdiv_nonneg_iff)
  have "q * w + p mod w = p" unfolding q_def by (rule div_mult_mod_eq)
  moreover have "0 \<le> p mod w" using assms(3) by simp
  moreover have "q * 1 \<le> q * w" using q0 assms(3) by (intro mult_left_mono) simp_all
  ultimately have "q \<le> p" by simp
  then have qb: "q < 2 ^ 53" using assms(2) by simp
  have qx: "of_int q \<le> x" unfolding q_def x_def by (rule quotient_gap(2) [OF assms(1,3)])
  have gap: "x \<le> of_int q + 1 - 1 / of_int w"
    unfolding q_def x_def by (rule quotient_gap(1) [OF assms(1,3)])
  note eb = ilog2_bounds [OF x0, folded e_def]
  have "(2::rat) powi 0 < 2 powi (e + 1)" using x1 eb(2) by simp
  then have "0 < e + 1" by (simp only: pow2_less_iff)
  then have e0: "0 \<le> e" by simp
  have "(2::rat) powi e < 2 powi 53" using eb(1) xp int_bound_rat [OF assms(2)] by simp
  then have "e < 53" by (simp only: pow2_less_iff)
  then have e52: "e \<le> 52" by simp
  define k where "k = nat (52 - e)"
  have ex: "expo x = e" using e0 by (simp add: expo_def e_def)
  have "(2::rat) powi (- int k) = 1 / 2 ^ k" by (simp add: power_int_minus_divide)
  moreover have "- int k = e - 52" using e52 by (simp add: k_def)
  ultimately have u: "ulp x = 1 / 2 ^ k" by (simp add: ulp_def ex)
  have xu: "x / ulp x = x * 2 ^ k" by (simp add: u)
  have "(2::rat) powi e * 2 ^ k = 2 powi (e + int k)" by (simp add: power_int_add)
  moreover have "e + int k = 52" using e52 by (simp add: k_def)
  ultimately have ek: "(2::rat) powi e * 2 ^ k = 2 ^ 52" by simp
  have "of_int w * 2 powi e \<le> (of_int p :: rat)"
    using eb(1) wr by (simp add: x_def pos_le_divide_eq mult.commute)
  then have "of_int w * 2 powi e < (2 ^ 53 :: rat)" using int_bound_rat [OF assms(2)] by simp
  then have "of_int w * 2 powi e * 2 ^ k < (2 ^ 53 :: rat) * 2 ^ k" by simp
  then have "of_int w * (2 ^ 52 :: rat) < 2 ^ 53 * 2 ^ k" using ek by (simp add: mult.assoc)
  then have wk: "(of_int w :: rat) < 2 * 2 ^ k" by simp
  have half: "1 / 2 < (2 ^ k :: rat) / of_int w"
    using wk wr by (simp add: pos_less_divide_eq)
  have "x * 2 ^ k \<le> (of_int q + 1 - 1 / of_int w) * 2 ^ k"
    using gap by (intro mult_right_mono) simp_all
  also have "\<dots> = of_int ((q + 1) * 2 ^ k) - 2 ^ k / of_int w" by (simp add: algebra_simps)
  also have "\<dots> < of_int ((q + 1) * 2 ^ k) - 1 / 2" using half by simp
  finally have "rne (x / ulp x) < (q + 1) * 2 ^ k" unfolding xu by (rule rne_less)
  then have "mant x \<le> (q + 1) * 2 ^ k - 1" by (simp add: mant_def)
  then have "(of_int (mant x) :: rat) \<le> of_int ((q + 1) * 2 ^ k - 1)" by (simp only: of_int_le_iff)
  then have "of_int (mant x) * ulp x \<le> of_int ((q + 1) * 2 ^ k - 1) * ulp x"
    using ulp_pos [of x] by (intro mult_right_mono) simp_all
  also have "\<dots> = of_int q + 1 - 1 / 2 ^ k" by (simp add: u field_simps)
  also have "\<dots> < of_int q + 1" by simp
  finally have hi: "rmag x < of_int q + 1" by (simp add: rmag_def)
  have lo: "of_int q \<le> rmag x" by (rule rmag_ge_int [OF q0 qx qb])
  show ?thesis using lo hi unfolding x_def [symmetric] q_def [symmetric] by (simp add: floor_eq_iff)
qed

lemma proposed_resize_factor_eq:
  assumes "0 \<le> pw" "pw < 2 ^ 53" "0 < w" "w < 2 ^ 53"
  shows "proposed_resize_factor (ph, pw) (h, w) = Inr \<lfloor>rmag (of_int pw / of_int w)\<rfloor>"
proof -
  let ?q = "(of_int pw / of_int w) :: rat"
  have q0: "0 \<le> ?q" using assms by simp
  have "?q \<le> of_int pw" using assms(1,3) by (simp add: divide_le_eq mult_le_cancel_left1)
  also have "\<dots> < 2 ^ 53" by (rule int_bound_rat [OF assms(2)])
  also have "\<dots> < (2::rat) powi 1023" by simp
  finally have "round64 ?q = Fin (rmag ?q)" by (rule round64_nonneg [OF q0])
  then show ?thesis
    using assms rmag_nonneg [OF q0]
    by (simp add: proposed_resize_factor_def float_of_int_exact bind_err_Inr)
qed


lemma resize_type_eq:
  assumes "shape img = (h, w, c)" "0 < h" "h < 2 ^ 53" "0 < w" "w < 2 ^ 53"
    and "0 < fh" "fh < 2 ^ 53" "0 < fw" "fw < 2 ^ 53" "0 < s" "s \<le> 1"
  defines "dest \<equiv> planFit_destination (h, w) (fh, fw) s"
  defines "rf \<equiv> \<lfloor>rmag (of_int (snd dest) / of_int w)\<rfloor>"
  shows "resize_type (Some img) (fh, fw) (Fin s) tol vars =
     Inr (set_resize_validity (proposed_resize_dir dest (h, w)) rf tol
       (vars(''img_obj'' \<mapsto> VArr img,
             ''img_res'' \<mapsto> VPair h w,
             ''img_aspect_ratio'' \<mapsto> VFloat (Fin (rmag (of_int w / of_int h))),
             ''defined_res'' \<mapsto> VPair fh fw,
             ''screen_factor'' \<mapsto> VFloat (Fin s),
             ''proposed_res'' \<mapsto> VPair (fst dest) (snd dest),
             ''proposed_resize_dir'' \<mapsto> VStr (proposed_resize_dir dest (h, w)),
             ''scale_tolerance'' \<mapsto> VFloat tol,
             ''proposed_resize_factor'' \<mapsto> VInt rf)))"
proof -
  note H = assms(2-11)
  have a: "img_aspect_ratio (h, w) = Inr (Fin (rmag (of_int w / of_int h)))"
    by (rule img_aspect_ratio_eq [OF assms(2-5)])
  have p: "propose_res (Fin (rmag (of_int w / of_int h))) (fh, fw) (Fin s) = Inr dest"
    unfolding dest_def by (rule propose_res_eq [OF H])
  have d0: "0 \<le> snd dest" and d1: "snd dest \<le> fw"
    unfolding dest_def by (rule planFit_destination_fits [OF H])+
  have db: "snd dest < 2 ^ 53" using d1 assms(9) by simp
  have f: "proposed_resize_factor dest (h, w) = Inr rf"
    using proposed_resize_factor_eq [OF d0 db assms(4,5), of "fst dest" h]
    by (simp add: rf_def)
  show ?thesis
    by (simp add: resize_type_def assms(1) Let_def a p f bind_err_Inr)
qed

lemma resize_type_fields:
  assumes "shape img = (h, w, c)" "0 < h" "h < 2 ^ 53" "0 < w" "w < 2 ^ 53"
    and "0 < fh" "fh < 2 ^ 53" "0 < fw" "fw < 2 ^ 53" "0 < s" "s \<le> 1"
  defines "dest \<equiv> planFit_destination (h, w) (fh, fw) s"
  defines "rf \<equiv> \<lfloor>rmag (of_int (snd dest) / of_int w)\<rfloor>"
  shows "\<exists>r. resize_type (Some img) (fh, fw) (Fin s) tol vars = Inr r
    \<and> r ''img_obj'' = Some (VArr img)
    \<and> r ''defined_res'' = Some (VPair fh fw)
    \<and> r ''img_aspect_ratio'' = Some (VFloat (Fin (rmag (of_int w / of_int h))))
    \<and> r ''proposed_res'' = Some (VPair (fst dest) (snd dest))
    \<and> r ''proposed_resize_dir'' = Some (VStr (if snd dest \<le> w then ''shrink'' else ''scale''))
    \<and> r ''proposed_resize_factor'' = Some (VInt rf)
    \<and> r ''resize_validity'' = Some (if snd dest \<le> w then VNone else VBool (int_le_float rf tol))"
  unfolding resize_type_eq [OF assms(1-11)] dest_def [symmetric] rf_def [symmetric]
  by (simp add: set_resize_validity_def proposed_resize_dir_def)

lemma img_aspect_ratio_zero_height:
  assumes "0 \<le> w" "w < 2 ^ 53"
  shows "img_aspect_ratio (0, w) = Inl ZeroDivisionError"
  using float_of_int_exact [OF assms] float_of_int_exact [of 0]
  by (simp add: img_aspect_ratio_def bind_err_Inr)

lemma resize_type_zero_height:
  assumes "shape img = (0, w, c)" "0 \<le> w" "w < 2 ^ 53"
  shows "resize_type (Some img) defined_res factor tol vars = Inl ZeroDivisionError"
  by (simp add: resize_type_def assms(1) img_aspect_ratio_zero_height [OF assms(2,3)] bind_err_Inl)

lemma resize_type_zero_width:
  assumes "shape img = (h, 0, c)" "0 < h" "h < 2 ^ 53"
    and "0 < fw" "fw < 2 ^ 53" "0 < s" "s \<le> 1"
  shows "resize_type (Some img) (fh, fw) (Fin s) tol vars = Inl ZeroDivisionError"
proof -
  have h: "float_of_int h = Inr (Fin (of_int h))"
    using assms(2,3) by (intro float_of_int_exact) simp_all
  have a: "img_aspect_ratio (h, 0) = Inr (Fin 0)"
    using assms(2) h float_of_int_exact [of 0]
    by (simp add: img_aspect_ratio_def bind_err_Inr round64_def)
  note side = scaled_side [OF assms(4-7)]
  have f1: "float_of_int fw = Inr (Fin (of_int fw))"
    using assms(4,5) by (intro float_of_int_exact) simp_all
  have c0: "0 \<le> \<lfloor>rmag (s * of_int fw)\<rfloor>" by (rule side(2))
  have cb: "\<lfloor>rmag (s * of_int fw)\<rfloor> < 2 ^ 53" using side(3) assms(5) by linarith
  have f3: "float_of_int \<lfloor>rmag (s * of_int fw)\<rfloor> = Inr (Fin (of_int \<lfloor>rmag (s * of_int fw)\<rfloor>))"
    by (rule float_of_int_exact [OF c0 cb])
  have p: "propose_res (Fin 0) (fh, fw) (Fin s) = Inl ZeroDivisionError"
    by (simp add: propose_res_def f1 side(1) f3 bind_err_Inr bind_err_Inl del: py_int.simps py_mul.simps)
  show ?thesis
    by (simp add: resize_type_def assms(1) a p bind_err_Inr bind_err_Inl)
qed

section \<open>Properties of \<open>add_pip_vars\<close>\<close>

lemma round64_neg:
  assumes "x < 0" "- x < 2 powi 1023"
  shows "round64 x = Fin (- rmag (- x))"
proof -
  have x: "0 < - x" using assms(1) by simp
  have "(2::rat) powi ilog2 (- x) < 2 powi 1023"
    using ilog2_bounds(1) [OF x] assms(2) by simp
  then have "ilog2 (- x) < 1023" by (simp only: pow2_less_iff)
  then have "expo (- x) < 1023" by (simp add: expo_def)
  moreover have "\<bar>x\<bar> = - x" using assms(1) by simp
  ultimately show ?thesis using assms(1) by (simp add: round64_def Let_def)
qed

lemma round64_half_int:
  assumes "\<bar>d\<bar> < 2 ^ 53"
  shows "round64 (of_int d) = Fin (of_int d)" and "round64 (of_int d / 2) = Fin (of_int d / 2)"
proof -
  have b: "(of_int \<bar>d\<bar> :: rat) < 2 ^ 53" by (rule int_bound_rat [OF assms])
  have big: "(2 ^ 53 :: rat) < 2 powi 1023" by simp
  have e1: "rmag (of_int \<bar>d\<bar>) = of_int \<bar>d\<bar>" using assms by (intro rmag_of_int) simp_all
  have e2: "rmag (of_int \<bar>d\<bar> / 2) = of_int \<bar>d\<bar> / 2"
  proof (cases "d = 0")
    case True
    then show ?thesis by (simp add: rmag_zero)
  next
    case False
    then have "0 < \<bar>d\<bar>" by simp
    then show ?thesis using assms
      by (intro rmag_exact [where m = "\<bar>d\<bar>" and k = "- 1"]) (simp_all add: power_int_minus_divide)
  qed
  show "round64 (of_int d) = Fin (of_int d)"
  proof (cases "0 \<le> d")
    case True
    then have "round64 (of_int d) = Fin (rmag (of_int d))"
      using b big by (intro round64_nonneg) simp_all
    then show ?thesis using e1 True by simp
  next
    case False
    then have "round64 (of_int d) = Fin (- rmag (- of_int d))"
      using b big by (intro round64_neg) simp_all
    then show ?thesis using e1 False by simp
  qed
  show "round64 (of_int d / 2) = Fin (of_int d / 2)"
  proof (cases "0 \<le> d")
    case True
    then have "round64 (of_int d / 2) = Fin (rmag (of_int d / 2))"
      using b big by (intro round64_nonneg) simp_all
    then show ?thesis using e2 True by simp
  next
    case False
    then have "round64 (of_int d / 2) = Fin (- rmag (- (of_int d / 2)))"
      using b big by (intro round64_neg) simp_all
    then show ?thesis using e2 False by simp
  qed
qed

lemma int64_id: "- (2 ^ 63) \<le> x \<Longrightarrow> x < 2 ^ 63 \<Longrightarrow> int64 x = x"
  by (simp add: int64_def)

lemma pip_offset_eq:
  assumes "\<bar>a - b\<bar> < 2 ^ 53"
  shows "pip_offset a b = Inr (half_towards_zero (a - b))"
proof -
  define d where "d = a - b"
  have d: "\<bar>d\<bar> < 2 ^ 53" using assms by (simp add: d_def)
  then have i: "int64 d = d" by (intro int64_id) simp_all
  note r = round64_half_int [OF d]
  have f: "float_of_int d = Inr (Fin (of_int d))" by (simp add: float_of_int_def r(1))
  have t: "py_truediv (Fin (of_int d)) (Fin 2) = Inr (Fin (of_int d / 2))" by (simp add: r(2))
  have fl: "\<lfloor>(of_int d :: rat) / 2\<rfloor> = d div 2"
    using floor_divide_of_int_eq [of d 2, where ?'a = rat] by simp
  have cl: "\<lceil>(of_int d :: rat) / 2\<rceil> = - ((- d) div 2)"
    using floor_divide_of_int_eq [of "- d" 2, where ?'a = rat] by (simp add: ceiling_def)
  have "py_int (Fin (of_int d / 2)) = Inr (half_towards_zero d)"
    by (simp add: half_towards_zero_def fl cl)
  then have "bind_err (float_of_int (int64 d)) (\<lambda>x. bind_err (py_truediv x (Fin 2)) py_int)
             = Inr (half_towards_zero d)"
    by (simp add: i f t bind_err_Inr del: py_int.simps py_truediv.simps)
  then show ?thesis by (simp only: pip_offset_def d_def)
qed

lemma add_pip_vars_eq:
  assumes "vars ''defined_res'' = Some (VPair fh fw)" "vars ''proposed_res'' = Some (VPair dh dw)"
    and "0 \<le> fh" "0 \<le> fw" "\<bar>fh - dh\<bar> < 2 ^ 53" "\<bar>fw - dw\<bar> < 2 ^ 53"
  shows "add_pip_vars vars =
     Inr (vars(''canvas'' \<mapsto> VArr \<lparr>shape = (fh, fw, 3),
                  rows = replicate (nat fh) (replicate (nat fw) (replicate 3 128))\<rparr>,
               ''pip_coords'' \<mapsto> VCoords (half_towards_zero (fw - dw)) (half_towards_zero (fw - dw) + dw)
                                        (half_towards_zero (fh - dh)) (half_towards_zero (fh - dh) + dh)))"
  using assms(3,4)
  by (simp add: add_pip_vars_def lookup_def as_pair_def np_full_def assms(1,2) bind_err_Inr
        pip_offset_eq [OF assms(5)] pip_offset_eq [OF assms(6)] Let_def)

section \<open>Properties of the slice assignment\<close>

lemma np_slice_inside:
  assumes "0 \<le> lo" "lo \<le> hi" "hi \<le> n"
  shows "np_slice n lo hi = (nat lo, nat (hi - lo))"
  using assms by (simp add: np_slice_def Let_def min_def)

lemma length_broadcast: "length (broadcast n xs) = n"
  by (simp add: broadcast_def)

lemma length_assign_span:
  assumes "start + n \<le> length xs"
  shows "length (assign_span start n f xs ys) = length xs"
  using assms by (simp add: assign_span_def length_broadcast)

lemma nth_assign_span_outside:
  assumes "start + n \<le> length xs" "i < start \<or> start + n \<le> i" "i < length xs"
  shows "assign_span start n f xs ys ! i = xs ! i"
proof (cases "i < start")
  case True
  then show ?thesis using assms(1) by (simp add: assign_span_def nth_append)
next
  case False
  then have i: "start + n \<le> i" using assms(2) by simp
  have m: "length (map2 f (take n (drop start xs)) (broadcast n ys)) = n"
    using assms(1) by (simp add: length_broadcast)
  have "assign_span start n f xs ys ! i
        = (map2 f (take n (drop start xs)) (broadcast n ys) @ drop (start + n) xs) ! (i - start)"
    using i assms(1) by (simp add: assign_span_def nth_append)
  also have "\<dots> = drop (start + n) xs ! (i - start - n)"
    using i by (simp only: nth_append m) simp
  also have "\<dots> = xs ! i" using i assms(3) by simp
  finally show ?thesis .
qed

lemma nth_assign_span_inside:
  assumes "start + n \<le> length xs" "start \<le> i" "i < start + n"
  shows "assign_span start n f xs ys ! i = f (xs ! i) (broadcast n ys ! (i - start))"
proof -
  have m: "length (map2 f (take n (drop start xs)) (broadcast n ys)) = n"
    using assms(1) by (simp add: length_broadcast)
  have k: "i - start < n" using assms(2,3) by simp
  have "assign_span start n f xs ys ! i
        = (map2 f (take n (drop start xs)) (broadcast n ys) @ drop (start + n) xs) ! (i - start)"
    using assms by (simp add: assign_span_def nth_append)
  also have "\<dots> = map2 f (take n (drop start xs)) (broadcast n ys) ! (i - start)"
    using k by (simp only: nth_append m) simp
  also have "\<dots> = f (xs ! i) (broadcast n ys ! (i - start))"
    using k assms by (simp add: length_broadcast)
  finally show ?thesis .
qed

lemma np_setitem_window:
  assumes a: "shape a = (h, w, c)" "length (rows a) = nat h"
      "\<forall>i < nat h. length (rows a ! i) = nat w"
    and b: "shape b = (bh, bw, c)"
    and y: "0 \<le> y1" "0 \<le> bh" "y1 + bh \<le> h"
    and x: "0 \<le> x1" "0 \<le> bw" "x1 + bw \<le> w"
  shows "\<exists>out. np_setitem a (y1, y1 + bh) (x1, x1 + bw) b = Inr out
           \<and> shape out = (h, w, c)
           \<and> length (rows out) = nat h
           \<and> (\<forall>i < nat h. length (rows out ! i) = nat w)
           \<and> (\<forall>i < nat h. \<forall>j < nat w.
                 \<not> (y1 \<le> int i \<and> int i < y1 + bh \<and> x1 \<le> int j \<and> int j < x1 + bw)
                 \<longrightarrow> rows out ! i ! j = rows a ! i ! j)"
proof -
  define g where "g = (\<lambda>(row :: 8 word list list) (brow :: 8 word list list).
      assign_span (nat x1) (nat bw) (\<lambda>px bpx. broadcast (nat c) bpx) row brow)"
  define out where "out = a\<lparr>rows := assign_span (nat y1) (nat bh) g (rows a) (rows b)\<rparr>"
  have sy: "np_slice h y1 (y1 + bh) = (nat y1, nat bh)"
    using np_slice_inside [of y1 "y1 + bh" h] y by simp
  have sx: "np_slice w x1 (x1 + bw) = (nat x1, nat bw)"
    using np_slice_inside [of x1 "x1 + bw" w] x by simp
  have r: "np_setitem a (y1, y1 + bh) (x1, x1 + bw) b = Inr out"
    using y(2) x(2) by (simp add: np_setitem_def a(1) b sy sx out_def g_def)
  have ly: "nat y1 + nat bh \<le> length (rows a)" using y a(2) by simp
  have len: "length (rows out) = nat h"
    using length_assign_span [OF ly] a(2) by (simp add: out_def)
  have row: "length (rows out ! i) = nat w
       \<and> (\<forall>j < nat w. \<not> (y1 \<le> int i \<and> int i < y1 + bh \<and> x1 \<le> int j \<and> int j < x1 + bw)
              \<longrightarrow> rows out ! i ! j = rows a ! i ! j)"
    if i: "i < nat h" for i
  proof (cases "nat y1 \<le> i \<and> i < nat y1 + nat bh")
    case False
    then have o: "i < nat y1 \<or> nat y1 + nat bh \<le> i" by auto
    have "rows out ! i = rows a ! i"
      using nth_assign_span_outside [OF ly o] i a(2) by (simp add: out_def)
    then show ?thesis using a(3) i by simp
  next
    case True
    have lx: "nat x1 + nat bw \<le> length (rows a ! i)" using x a(3) i by simp
    have e: "rows out ! i = assign_span (nat x1) (nat bw) (\<lambda>px bpx. broadcast (nat c) bpx)
                (rows a ! i) (broadcast (nat bh) (rows b) ! (i - nat y1))"
      using nth_assign_span_inside [OF ly, of i g "rows b"] True by (simp add: out_def g_def)
    have "length (rows out ! i) = nat w"
      unfolding e using length_assign_span [OF lx] a(3) i by simp
    moreover have "rows out ! i ! j = rows a ! i ! j"
      if j: "j < nat w" and n: "\<not> (y1 \<le> int i \<and> int i < y1 + bh \<and> x1 \<le> int j \<and> int j < x1 + bw)" for j
    proof -
      have "y1 \<le> int i" "int i < y1 + bh" using True y by linarith+
      then have "\<not> (x1 \<le> int j \<and> int j < x1 + bw)" using n by simp
      then have o: "j < nat x1 \<or> nat x1 + nat bw \<le> j" using x by linarith
      have "j < length (rows a ! i)" using j a(3) i by simp
      then show ?thesis unfolding e by (rule nth_assign_span_outside [OF lx o])
    qed
    ultimately show ?thesis by simp
  qed
  show ?thesis
    using r len row by (intro exI [of _ out] conjI) (simp_all add: out_def a(1))
qed



lemma gray_pixel: "replicate 3 (x :: 8 word) = [x, x, x]"
  by (simp add: numeral_3_eq_3)

section \<open>The claims\<close>

text \<open>
  Source dimensions are the first two entries of the shape of a decoded image and frame
  dimensions those of a canvas that is allocated: sizes of pixel buffers held in memory.
  The theorems take them below \<open>2 ^ 53\<close>, the range in which every integer is a
  binary64 number.
\<close>

text \<open>
  Claim C1. For every source image with positive height and width, under the module's
  configuration (frame \<open>(1920, 1080)\<close>, screen factor \<open>0.75\<close>), \<open>resize_type\<close>
  returns, and the proposed resolution it stores has a height of at most the frame
  height and a width of at most the frame width.
\<close>

theorem proposed_res_fits_frame:
  assumes "shape img = (h, w, c)" "0 < h" "h < 2 ^ 53" "0 < w" "w < 2 ^ 53"
  shows "\<exists>r ph pw. resize_type (Some img) ig_defined_res screen_factor scale_tolerance vars = Inr r
           \<and> r ''proposed_res'' = Some (VPair ph pw)
           \<and> ph \<le> fst ig_defined_res \<and> pw \<le> snd ig_defined_res"
proof -
  have H: "(0::int) < 1920" "(1920::int) < 2 ^ 53" "(0::int) < 1080" "(1080::int) < 2 ^ 53"
    "(0::rat) < 3 / 4" "(3 / 4 :: rat) \<le> 1" by simp_all
  from resize_type_fields [OF assms H, of scale_tolerance vars]
  obtain r where r: "resize_type (Some img) (1920, 1080) (Fin (3 / 4)) scale_tolerance vars = Inr r"
    "r ''proposed_res'' = Some (VPair (fst (planFit_destination (h, w) (1920, 1080) (3 / 4)))
                                       (snd (planFit_destination (h, w) (1920, 1080) (3 / 4))))"
    by blast
  note fits = planFit_destination_fits [OF assms(2-5) H]
  show ?thesis
    using r fits(2,4) by (simp add: ig_defined_res_def screen_factor_def)
qed

theorem proposed_res_fits_frame_witness:
  "\<exists>r ph pw. resize_type (Some \<lparr>shape = (100, 100, 3), rows = replicate 100 (replicate 100 [0, 0, 0])\<rparr>)
                ig_defined_res screen_factor scale_tolerance Map.empty = Inr r
           \<and> r ''proposed_res'' = Some (VPair ph pw) \<and> ph \<le> 1920 \<and> pw \<le> 1080"
  using proposed_res_fits_frame [of "\<lparr>shape = (100, 100, 3), rows = replicate 100 (replicate 100 [0, 0, 0])\<rparr>" 100 100 3 Map.empty]
  by (simp add: ig_defined_res_def)

text \<open>
  Claim C2. For every source image with positive height and width, positive frame
  dimensions and a screen factor in \<open>(0, 1]\<close>, \<open>resize_type\<close> returns; the aspect
  ratio it stores is the float quotient of source width and height, and the proposed
  resolution is the destination that the specification's steps compute: width first,
  height first when the candidate height exceeds the frame height.
\<close>

theorem proposed_res_refines_planFit:
  assumes "shape img = (h, w, c)" "0 < h" "h < 2 ^ 53" "0 < w" "w < 2 ^ 53"
    and "0 < fh" "fh < 2 ^ 53" "0 < fw" "fw < 2 ^ 53" "0 < s" "s \<le> 1"
  shows "\<exists>r. resize_type (Some img) (fh, fw) (Fin s) tol vars = Inr r
           \<and> r ''img_aspect_ratio'' = Some (VFloat (Fin (nearest64 (of_int w / of_int h))))
           \<and> r ''proposed_res'' = Some (VPair (fst (planFit_destination (h, w) (fh, fw) s))
                                               (snd (planFit_destination (h, w) (fh, fw) s)))"
proof -
  have "nearest64 (of_int w / of_int h) = rmag (of_int w / of_int h)"
    using assms(2,4) by (intro nearest64_nonneg) simp
  then show ?thesis using resize_type_fields [OF assms, of tol vars] by auto
qed

theorem proposed_res_refines_planFit_witness:
  "\<exists>r. resize_type (Some \<lparr>shape = (7, 10, 3), rows = replicate 7 (replicate 10 [0, 0, 0])\<rparr>)
            (1920, 1080) (Fin (3 / 4)) (Fin 2) Map.empty = Inr r
       \<and> r ''img_aspect_ratio'' = Some (VFloat (Fin (6433713753386423 / 4503599627370496)))
       \<and> r ''proposed_res'' = Some (VPair 567 810)"
proof -
  have e: "planFit_destination (7, 10) (1920, 1080) (3 / 4) = (567, 810)" by code_simp
  have a: "nearest64 (10 / 7) = 6433713753386423 / 4503599627370496" by code_simp
  show ?thesis
    using proposed_res_refines_planFit [of "\<lparr>shape = (7, 10, 3), rows = replicate 7 (replicate 10 [0, 0, 0])\<rparr>"
        7 10 3 1920 1080 "3 / 4" "Fin 2" Map.empty]
    by (simp add: e a)
qed

text \<open>
  The arithmetic of these steps is floating-point arithmetic. With exact quotients the
  candidate height of a source of height 11 and width 9 would be 990; the code, and the
  steps read with binary64 results, give 989.
\<close>

lemma planFit_destination_rounds:
  "planFit_destination (11, 9) (1920, 1080) (3 / 4) = (989, 810)
   \<and> \<lfloor>(810 :: rat) / (9 / 11)\<rfloor> = 990"
  by code_simp

text \<open>
  Claim C3. For every source image with positive height and width, the direction stored
  by \<open>resize_type\<close> is \<open>'shrink'\<close> exactly when the proposed width is at most the source
  width (equality included) and \<open>'scale'\<close> otherwise; \<open>resize_validity\<close> is a boolean
  exactly when the direction is \<open>'scale'\<close> and \<open>None\<close> exactly when it is \<open>'shrink'\<close>.
\<close>

theorem resize_dir_and_validity:
  assumes "shape img = (h, w, c)" "0 < h" "h < 2 ^ 53" "0 < w" "w < 2 ^ 53"
    and "0 < fh" "fh < 2 ^ 53" "0 < fw" "fw < 2 ^ 53" "0 < s" "s \<le> 1"
  shows "\<exists>r ph pw. resize_type (Some img) (fh, fw) (Fin s) tol vars = Inr r
           \<and> r ''proposed_res'' = Some (VPair ph pw)
           \<and> (r ''proposed_resize_dir'' = Some (VStr ''shrink'') \<longleftrightarrow> pw \<le> w)
           \<and> (r ''proposed_resize_dir'' = Some (VStr ''scale'') \<longleftrightarrow> \<not> pw \<le> w)
           \<and> ((\<exists>b. r ''resize_validity'' = Some (VBool b))
                 \<longleftrightarrow> r ''proposed_resize_dir'' = Some (VStr ''scale''))
           \<and> (r ''resize_validity'' = Some VNone
                 \<longleftrightarrow> r ''proposed_resize_dir'' = Some (VStr ''shrink''))"
proof -
  from resize_type_fields [OF assms, of tol vars]
  obtain r where "resize_type (Some img) (fh, fw) (Fin s) tol vars = Inr r"
    and "r ''proposed_res'' = Some (VPair (fst (planFit_destination (h, w) (fh, fw) s))
                                           (snd (planFit_destination (h, w) (fh, fw) s)))"
    and "r ''proposed_resize_dir'' = Some (VStr (if snd (planFit_destination (h, w) (fh, fw) s) \<le> w
                                                  then ''shrink'' else ''scale''))"
    and "r ''resize_validity'' = Some (if snd (planFit_destination (h, w) (fh, fw) s) \<le> w then VNone
           else VBool (int_le_float \<lfloor>rmag (of_int (snd (planFit_destination (h, w) (fh, fw) s)) / of_int w)\<rfloor> tol))"
    by blast
  then show ?thesis by (intro exI [of _ r] exI conjI) (assumption, assumption, auto)
qed

theorem resize_dir_and_validity_witness:
  "\<exists>r ph pw. resize_type (Some \<lparr>shape = (1000, 1000, 3), rows = replicate 1000 (replicate 1000 [0, 0, 0])\<rparr>)
                (1920, 1080) (Fin (3 / 4)) (Fin 2) Map.empty = Inr r
       \<and> r ''proposed_res'' = Some (VPair ph pw)
       \<and> (r ''proposed_resize_dir'' = Some (VStr ''shrink'') \<longleftrightarrow> pw \<le> 1000)
       \<and> (r ''proposed_resize_dir'' = Some (VStr ''scale'') \<longleftrightarrow> \<not> pw \<le> 1000)
       \<and> ((\<exists>b. r ''resize_validity'' = Some (VBool b))
             \<longleftrightarrow> r ''proposed_resize_dir'' = Some (VStr ''scale''))
       \<and> (r ''resize_validity'' = Some VNone
             \<longleftrightarrow> r ''proposed_resize_dir'' = Some (VStr ''shrink''))"
  using resize_dir_and_validity [of "\<lparr>shape = (1000, 1000, 3), rows = replicate 1000 (replicate 1000 [0, 0, 0])\<rparr>"
      1000 1000 3 1920 1080 "3 / 4" "Fin 2" Map.empty]
  by simp

text \<open>
  Claim C4. For every source image with positive height and width, every frame with
  positive dimensions and every screen factor in \<open>(0, 1]\<close>, the resize factor stored
  by \<open>resize_type\<close> is the integer quotient of proposed width by source width (the floor
  of the exact quotient), and when the direction is \<open>'scale'\<close> the validity is the truth
  value of resize factor \<open>\<le>\<close> tolerance. A 100 by 100 source with frame \<open>(1920, 1080)\<close>,
  screen factor \<open>0.75\<close> and tolerance 2 gives destination \<open>(810, 810)\<close>, direction
  \<open>'scale'\<close>, factor 8 and validity \<open>False\<close>.
\<close>

theorem resize_factor_and_validity:
  assumes "shape img = (h, w, c)" "0 < h" "h < 2 ^ 53" "0 < w" "w < 2 ^ 53"
    and "0 < fh" "fh < 2 ^ 53" "0 < fw" "fw < 2 ^ 53" "0 < s" "s \<le> 1"
  shows "\<exists>r ph pw. resize_type (Some img) (fh, fw) (Fin s) (Fin t) vars = Inr r
           \<and> r ''proposed_res'' = Some (VPair ph pw)
           \<and> r ''proposed_resize_factor'' = Some (VInt (pw div w))
           \<and> (r ''proposed_resize_dir'' = Some (VStr ''scale'')
                \<longrightarrow> r ''resize_validity'' = Some (VBool (of_int (pw div w) \<le> t)))"
proof -
  define pw where "pw = snd (planFit_destination (h, w) (fh, fw) s)"
  note fits = planFit_destination_fits [OF assms(2-11)]
  have pw0: "0 \<le> pw" and pwb: "pw < 2 ^ 53" using fits(3,4) assms(9) by (simp_all add: pw_def)
  have rf: "\<lfloor>rmag (of_int pw / of_int w)\<rfloor> = pw div w"
    by (rule floor_rmag_div [OF pw0 pwb assms(4,5)])
  from resize_type_fields [OF assms, of "Fin t" vars]
  obtain r where "resize_type (Some img) (fh, fw) (Fin s) (Fin t) vars = Inr r"
    and "r ''proposed_res'' = Some (VPair (fst (planFit_destination (h, w) (fh, fw) s)) pw)"
    and "r ''proposed_resize_dir'' = Some (VStr (if pw \<le> w then ''shrink'' else ''scale''))"
    and "r ''proposed_resize_factor'' = Some (VInt (pw div w))"
    and "r ''resize_validity'' = Some (if pw \<le> w then VNone else VBool (int_le_float (pw div w) (Fin t)))"
    unfolding pw_def [symmetric] rf by blast
  then show ?thesis
    by (intro exI [of _ r] exI conjI) (assumption, assumption, assumption, auto)
qed

theorem resize_factor_and_validity_witness:
  "(\<exists>r ph pw. resize_type (Some \<lparr>shape = (100, 100, 3), rows = replicate 100 (replicate 100 [0, 0, 0])\<rparr>)
                 (1920, 1080) (Fin (3 / 4)) (Fin 2) Map.empty = Inr r
        \<and> r ''proposed_res'' = Some (VPair ph pw)
        \<and> r ''proposed_resize_factor'' = Some (VInt (pw div 100))
        \<and> (r ''proposed_resize_dir'' = Some (VStr ''scale'')
             \<longrightarrow> r ''resize_validity'' = Some (VBool (of_int (pw div 100) \<le> (2::rat)))))
   \<and> (case resize_type (Some \<lparr>shape = (100, 100, 3), rows = replicate 100 (replicate 100 [0, 0, 0])\<rparr>)
              ig_defined_res screen_factor scale_tolerance Map.empty of
         Inl e \<Rightarrow> False
       | Inr r \<Rightarrow> r ''proposed_res'' = Some (VPair 810 810)
               \<and> r ''proposed_resize_dir'' = Some (VStr ''scale'')
               \<and> r ''proposed_resize_factor'' = Some (VInt 8)
               \<and> r ''resize_validity'' = Some (VBool False))"
proof (rule conjI)
  show "\<exists>r ph pw. resize_type (Some \<lparr>shape = (100, 100, 3), rows = replicate 100 (replicate 100 [0, 0, 0])\<rparr>)
                 (1920, 1080) (Fin (3 / 4)) (Fin 2) Map.empty = Inr r
        \<and> r ''proposed_res'' = Some (VPair ph pw)
        \<and> r ''proposed_resize_factor'' = Some (VInt (pw div 100))
        \<and> (r ''proposed_resize_dir'' = Some (VStr ''scale'')
             \<longrightarrow> r ''resize_validity'' = Some (VBool (of_int (pw div 100) \<le> (2::rat))))"
    using resize_factor_and_validity [of "\<lparr>shape = (100, 100, 3), rows = replicate 100 (replicate 100 [0, 0, 0])\<rparr>"
        100 100 3 1920 1080 "3 / 4" 2 Map.empty]
    by simp
  show "case resize_type (Some \<lparr>shape = (100, 100, 3), rows = replicate 100 (replicate 100 [0, 0, 0])\<rparr>)
              ig_defined_res screen_factor scale_tolerance Map.empty of
         Inl e \<Rightarrow> False
       | Inr r \<Rightarrow> r ''proposed_res'' = Some (VPair 810 810)
               \<and> r ''proposed_resize_dir'' = Some (VStr ''scale'')
               \<and> r ''proposed_resize_factor'' = Some (VInt 8)
               \<and> r ''resize_validity'' = Some (VBool False)"
    by code_simp
qed

text \<open>
  Claim C5, evaluated on the code. A source of height 1 and width 1000 gets the proposed
  resolution \<open>(0, 810)\<close>, a source of height 2000 and width 1 gets \<open>(1440, 0)\<close>: the
  truncation yields a zero height on the width-first path and a zero width on the
  height-first path, so positivity of the destination is not preserved.
\<close>

theorem proposed_res_not_positive:
  "(\<exists>r. resize_type (Some \<lparr>shape = (1, 1000, 3), rows = [replicate 1000 [0, 0, 0]]\<rparr>)
           ig_defined_res screen_factor scale_tolerance Map.empty = Inr r
        \<and> r ''proposed_res'' = Some (VPair 0 810))
   \<and> (\<exists>r. resize_type (Some \<lparr>shape = (2000, 1, 3), rows = replicate 2000 [[0, 0, 0]]\<rparr>)
           ig_defined_res screen_factor scale_tolerance Map.empty = Inr r
        \<and> r ''proposed_res'' = Some (VPair 1440 0))"
proof -
  have H: "(0::int) < 1920" "(1920::int) < 2 ^ 53" "(0::int) < 1080" "(1080::int) < 2 ^ 53"
    "(0::rat) < 3 / 4" "(3 / 4 :: rat) \<le> 1" by simp_all
  have e1: "planFit_destination (1, 1000) (1920, 1080) (3 / 4) = (0, 810)" by code_simp
  have e2: "planFit_destination (2000, 1) (1920, 1080) (3 / 4) = (1440, 0)" by code_simp
  show ?thesis
    using resize_type_fields [of "\<lparr>shape = (1, 1000, 3), rows = [replicate 1000 [0, 0, 0]]\<rparr>"
            1 1000 3 1920 1080 "3 / 4" scale_tolerance Map.empty]
          resize_type_fields [of "\<lparr>shape = (2000, 1, 3), rows = replicate 2000 [[0, 0, 0]]\<rparr>"
            2000 1 3 1920 1080 "3 / 4" scale_tolerance Map.empty]
    by (simp add: e1 e2 ig_defined_res_def screen_factor_def, blast)
qed

text \<open>
  Claim C9. For positive frame dimensions and a screen factor in \<open>(0, 1]\<close>, whatever
  the tolerance, \<open>resize_type\<close> returns for every source image of positive height and
  width, and it raises \<open>ZeroDivisionError\<close> when the source height or width is zero.
\<close>

theorem resize_type_total:
  assumes "shape img = (h, w, c)" "0 \<le> h" "h < 2 ^ 53" "0 \<le> w" "w < 2 ^ 53"
    and "0 < fh" "fh < 2 ^ 53" "0 < fw" "fw < 2 ^ 53" "0 < s" "s \<le> 1"
  shows "(0 < h \<and> 0 < w \<longrightarrow> (\<exists>r. resize_type (Some img) (fh, fw) (Fin s) tol vars = Inr r))
       \<and> (h = 0 \<or> w = 0 \<longrightarrow> resize_type (Some img) (fh, fw) (Fin s) tol vars = Inl ZeroDivisionError)"
proof (intro conjI impI)
  assume "0 < h \<and> 0 < w"
  then have "0 < h" "0 < w" by simp_all
  from resize_type_fields [OF assms(1) this(1) assms(3) this(2) assms(5-11), of tol vars]
  show "\<exists>r. resize_type (Some img) (fh, fw) (Fin s) tol vars = Inr r" by blast
next
  assume z: "h = 0 \<or> w = 0"
  show "resize_type (Some img) (fh, fw) (Fin s) tol vars = Inl ZeroDivisionError"
  proof (cases "h = 0")
    case True
    then show ?thesis using assms(1,4,5) by (intro resize_type_zero_height [of img w c]) simp_all
  next
    case False
    then have "0 < h" "w = 0" using z assms(2) by simp_all
    then show ?thesis
      using assms by (intro resize_type_zero_width [of img h c]) simp_all
  qed
qed

theorem resize_type_total_witness:
  "(\<exists>r. resize_type (Some \<lparr>shape = (100, 100, 3), rows = replicate 100 (replicate 100 [0, 0, 0])\<rparr>)
           (1920, 1080) (Fin (3 / 4)) (Fin 2) Map.empty = Inr r)
   \<and> resize_type (Some \<lparr>shape = (0, 100, 3), rows = []\<rparr>)
           (1920, 1080) (Fin (3 / 4)) (Fin 2) Map.empty = Inl ZeroDivisionError"
  using resize_type_total [of "\<lparr>shape = (100, 100, 3), rows = replicate 100 (replicate 100 [0, 0, 0])\<rparr>"
          100 100 3 1920 1080 "3 / 4" "Fin 2" Map.empty]
        resize_type_total [of "\<lparr>shape = (0, 100, 3), rows = []\<rparr>"
          0 100 3 1920 1080 "3 / 4" "Fin 2" Map.empty]
  by simp

text \<open>
  Claim C6 as stated fails where the destination exceeds the frame by an odd amount:
  for a frame of 10 by 10 and a destination of 13 by 13 the code stores the offsets
  \<open>x1 = y1 = -1\<close>, while the floor of \<open>(10 - 13) / 2\<close> is \<open>-2\<close>.
\<close>

theorem pip_coords_not_floor:
  "add_pip_vars [''defined_res'' \<mapsto> VPair 10 10, ''proposed_res'' \<mapsto> VPair 13 13]
     = Inr [''defined_res'' \<mapsto> VPair 10 10, ''proposed_res'' \<mapsto> VPair 13 13,
            ''canvas'' \<mapsto> VArr \<lparr>shape = (10, 10, 3),
                                    rows = replicate 10 (replicate 10 (replicate 3 128))\<rparr>,
            ''pip_coords'' \<mapsto> VCoords (- 1) 12 (- 1) 12]
   \<and> \<lfloor>(10 - 13 :: rat) / 2\<rfloor> = - 2"
proof -
  have "add_pip_vars [''defined_res'' \<mapsto> VPair 10 10, ''proposed_res'' \<mapsto> VPair 13 13]
     = Inr ([''defined_res'' \<mapsto> VPair 10 10, ''proposed_res'' \<mapsto> VPair 13 13]
          (''canvas'' \<mapsto> VArr \<lparr>shape = (10, 10, 3),
                  rows = replicate (nat 10) (replicate (nat 10) (replicate 3 128))\<rparr>,
               ''pip_coords'' \<mapsto> VCoords (half_towards_zero (10 - 13)) (half_towards_zero (10 - 13) + 13)
                                        (half_towards_zero (10 - 13)) (half_towards_zero (10 - 13) + 13)))"
    by (rule add_pip_vars_eq) simp_all
  moreover have "\<lfloor>(10 - 13 :: rat) / 2\<rfloor> = - 2" by (rule floor_unique) simp_all
  ultimately show ?thesis by (simp add: half_towards_zero_def)
qed

text \<open>
  Claim C6, amended. For every frame and destination with non-negative components,
  \<open>add_pip_vars\<close> returns with \<open>y1\<close> the half of frame height minus destination
  height and \<open>x1\<close> the half of frame width minus destination width, both truncated
  towards zero, which is the floor when the destination does not exceed the frame on
  that axis; \<open>x2 = x1 +\<close> destination width and \<open>y2 = y1 +\<close> destination height, so
  \<open>x2 - x1\<close> and \<open>y2 - y1\<close> are the destination width and height; when the destination
  is at most the frame on both axes the rectangle lies inside the frame.
\<close>

theorem pip_coords_centered_rect:
  assumes "vars ''defined_res'' = Some (VPair fh fw)" "vars ''proposed_res'' = Some (VPair dh dw)"
    and "0 \<le> fh" "fh < 2 ^ 53" "0 \<le> fw" "fw < 2 ^ 53"
    and "0 \<le> dh" "dh < 2 ^ 53" "0 \<le> dw" "dw < 2 ^ 53"
  shows "\<exists>r x1 x2 y1 y2. add_pip_vars vars = Inr r
           \<and> r ''pip_coords'' = Some (VCoords x1 x2 y1 y2)
           \<and> y1 = half_towards_zero (fh - dh) \<and> x1 = half_towards_zero (fw - dw)
           \<and> x2 = x1 + dw \<and> y2 = y1 + dh \<and> x2 - x1 = dw \<and> y2 - y1 = dh
           \<and> (dh \<le> fh \<longrightarrow> y1 = (fh - dh) div 2)
           \<and> (dw \<le> fw \<longrightarrow> x1 = (fw - dw) div 2)
           \<and> (dh \<le> fh \<and> dw \<le> fw \<longrightarrow> 0 \<le> x1 \<and> x2 \<le> fw \<and> 0 \<le> y1 \<and> y2 \<le> fh)"
proof -
  have b: "\<bar>fh - dh\<bar> < 2 ^ 53" "\<bar>fw - dw\<bar> < 2 ^ 53" using assms(3-10) by simp_all
  note e = add_pip_vars_eq [OF assms(1,2,3,5) b]
  show ?thesis
    unfolding e by (intro exI conjI) (simp, simp, auto simp add: half_towards_zero_def)
qed

theorem pip_coords_centered_rect_witness:
  "\<exists>r. add_pip_vars [''defined_res'' \<mapsto> VPair 1920 1080, ''proposed_res'' \<mapsto> VPair 810 810] = Inr r
       \<and> r ''pip_coords'' = Some (VCoords 135 945 555 1365)"
  using pip_coords_centered_rect [of "[''defined_res'' \<mapsto> VPair 1920 1080, ''proposed_res'' \<mapsto> VPair 810 810]"
      1920 1080 810 810]
  by (simp add: half_towards_zero_def)

text \<open>
  Claim C7. For every destination that does not exceed the frame, the offsets are
  centred: \<open>x1\<close> differs from the space left on the other side, frame width minus
  destination width minus \<open>x1\<close>, by at most one, and likewise \<open>y1\<close>.
\<close>

theorem pip_coords_symmetric:
  assumes "vars ''defined_res'' = Some (VPair fh fw)" "vars ''proposed_res'' = Some (VPair dh dw)"
    and "0 \<le> dh" "dh \<le> fh" "fh < 2 ^ 53" "0 \<le> dw" "dw \<le> fw" "fw < 2 ^ 53"
  shows "\<exists>r x1 x2 y1 y2. add_pip_vars vars = Inr r
           \<and> r ''pip_coords'' = Some (VCoords x1 x2 y1 y2)
           \<and> \<bar>x1 - (fw - dw - x1)\<bar> \<le> 1 \<and> \<bar>y1 - (fh - dh - y1)\<bar> \<le> 1"
proof -
  have b: "\<bar>fh - dh\<bar> < 2 ^ 53" "\<bar>fw - dw\<bar> < 2 ^ 53" "0 \<le> fh" "0 \<le> fw" using assms(3-8) by simp_all
  note e = add_pip_vars_eq [OF assms(1,2) b(3,4,1,2)]
  show ?thesis
    unfolding e using assms(4,7)
    by (intro exI conjI) (simp, simp, auto simp add: half_towards_zero_def)
qed

theorem pip_coords_symmetric_witness:
  "\<exists>r x1 x2 y1 y2. add_pip_vars [''defined_res'' \<mapsto> VPair 1920 1080, ''proposed_res'' \<mapsto> VPair 567 810] = Inr r
       \<and> r ''pip_coords'' = Some (VCoords x1 x2 y1 y2)
       \<and> \<bar>x1 - (1080 - 810 - x1)\<bar> \<le> 1 \<and> \<bar>y1 - (1920 - 567 - y1)\<bar> \<le> 1"
  using pip_coords_symmetric [of "[''defined_res'' \<mapsto> VPair 1920 1080, ''proposed_res'' \<mapsto> VPair 567 810]"
      1920 1080 567 810]
  by simp

text \<open>
  Claim C8. For every image that is processed (source and frame as before, \<open>cv2.resize\<close>
  returning an array of the proposed resolution with three channels), whatever the
  shared dictionary held before: \<open>add_pip_vars\<close> stores a new canvas of the frame's shape
  with three channels whose every pixel is \<open>(128, 128, 128)\<close>; \<open>process_image\<close> returns
  and writes out an array of the same shape in which every pixel outside the rectangle
  \<open>[y1:y2, x1:x2]\<close> is still \<open>(128, 128, 128)\<close>.
\<close>

theorem canvas_gray_outside_paste:
  assumes "shape img = (h, w, c)" "0 < h" "h < 2 ^ 53" "0 < w" "w < 2 ^ 53"
    and "0 < fh" "fh < 2 ^ 53" "0 < fw" "fw < 2 ^ 53" "0 < s" "s \<le> 1"
    and "planFit_destination (h, w) (fh, fw) s = (ph, pw)"
    and "cv2_resize img (pw, ph) = Inr resized" "shape resized = (ph, pw, 3)"
  shows "\<exists>v1 v2 v3 canvas x1 x2 y1 y2 out.
      resize_type (Some img) (fh, fw) (Fin s) tol vars = Inr v1
    \<and> add_pip_vars v1 = Inr v2
    \<and> v2 ''canvas'' = Some (VArr canvas)
    \<and> shape canvas = (fh, fw, 3)
    \<and> rows canvas = replicate (nat fh) (replicate (nat fw) [128, 128, 128])
    \<and> v2 ''pip_coords'' = Some (VCoords x1 x2 y1 y2)
    \<and> process_image cv2_resize v2 = Inr (v3, out)
    \<and> v3 ''canvas'' = Some (VArr out)
    \<and> shape out = (fh, fw, 3)
    \<and> length (rows out) = nat fh
    \<and> (\<forall>i < nat fh. length (rows out ! i) = nat fw)
    \<and> (\<forall>i < nat fh. \<forall>j < nat fw.
          \<not> (y1 \<le> int i \<and> int i < y2 \<and> x1 \<le> int j \<and> int j < x2)
          \<longrightarrow> rows out ! i ! j = [128, 128, 128])"
proof -
  note H = assms(2-11)
  note fits = planFit_destination_fits [OF H]
  have ph: "0 \<le> ph" "ph \<le> fh" and pw: "0 \<le> pw" "pw \<le> fw"
    using fits by (simp_all add: assms(12))
  from resize_type_fields [OF assms(1) H, of tol vars]
  obtain v1 where v1: "resize_type (Some img) (fh, fw) (Fin s) tol vars = Inr v1"
    "v1 ''img_obj'' = Some (VArr img)" "v1 ''defined_res'' = Some (VPair fh fw)"
    "v1 ''proposed_res'' = Some (VPair ph pw)"
    by (auto simp add: assms(12))
  define y1 where "y1 = half_towards_zero (fh - ph)"
  define x1 where "x1 = half_towards_zero (fw - pw)"
  define canvas where "canvas = \<lparr>shape = (fh, fw, 3),
      rows = replicate (nat fh) (replicate (nat fw) (replicate 3 (128 :: 8 word)))\<rparr>"
  define v2 where "v2 = v1(''canvas'' \<mapsto> VArr canvas,
      ''pip_coords'' \<mapsto> VCoords x1 (x1 + pw) y1 (y1 + ph))"
  have b: "\<bar>fh - ph\<bar> < 2 ^ 53" "\<bar>fw - pw\<bar> < 2 ^ 53" "0 \<le> fh" "0 \<le> fw"
    using ph pw assms(6-9) by simp_all
  have v2: "add_pip_vars v1 = Inr v2"
    unfolding v2_def canvas_def x1_def y1_def
    by (rule add_pip_vars_eq [OF v1(3,4) b(3,4,1,2)])
  have yb: "0 \<le> y1" "y1 + ph \<le> fh" using ph by (simp_all add: y1_def half_towards_zero_def)
  have xb: "0 \<le> x1" "x1 + pw \<le> fw" using pw by (simp_all add: x1_def half_towards_zero_def)
  have cs: "shape canvas = (fh, fw, 3)" "length (rows canvas) = nat fh"
    "\<forall>i < nat fh. length (rows canvas ! i) = nat fw"
    by (simp_all add: canvas_def)
  from np_setitem_window [OF cs assms(14) yb(1) ph(1) yb(2) xb(1) pw(1) xb(2)]
  obtain out where out: "np_setitem canvas (y1, y1 + ph) (x1, x1 + pw) resized = Inr out"
    "shape out = (fh, fw, 3)" "length (rows out) = nat fh"
    "\<forall>i < nat fh. length (rows out ! i) = nat fw"
    "\<forall>i < nat fh. \<forall>j < nat fw.
        \<not> (y1 \<le> int i \<and> int i < y1 + ph \<and> x1 \<le> int j \<and> int j < x1 + pw)
        \<longrightarrow> rows out ! i ! j = rows canvas ! i ! j"
    by blast
  have gray: "rows canvas ! i ! j = [128, 128, 128]" if "i < nat fh" "j < nat fw" for i j
    using that by (simp add: canvas_def gray_pixel)
  have p: "process_image cv2_resize v2 = Inr (v2(''canvas'' \<mapsto> VArr out), out)"
    by (simp add: process_image_def lookup_def as_pair_def as_arr_def as_coords_def
          v2_def v1(2,4) assms(13) out(1) bind_err_Inr)
  show ?thesis
  proof (intro exI conjI)
    show "resize_type (Some img) (fh, fw) (Fin s) tol vars = Inr v1" by (rule v1(1))
    show "add_pip_vars v1 = Inr v2" by (rule v2)
    show "v2 ''canvas'' = Some (VArr canvas)" by (simp add: v2_def)
    show "shape canvas = (fh, fw, 3)" by (rule cs(1))
    show "rows canvas = replicate (nat fh) (replicate (nat fw) [128, 128, 128])"
      by (simp add: canvas_def gray_pixel)
    show "v2 ''pip_coords'' = Some (VCoords x1 (x1 + pw) y1 (y1 + ph))" by (simp add: v2_def)
    show "process_image cv2_resize v2 = Inr (v2(''canvas'' \<mapsto> VArr out), out)" by (rule p)
    show "(v2(''canvas'' \<mapsto> VArr out)) ''canvas'' = Some (VArr out)" by simp
    show "shape out = (fh, fw, 3)" by (rule out(2))
    show "length (rows out) = nat fh" by (rule out(3))
    show "\<forall>i < nat fh. length (rows out ! i) = nat fw" by (rule out(4))
    show "\<forall>i < nat fh. \<forall>j < nat fw.
          \<not> (y1 \<le> int i \<and> int i < y1 + ph \<and> x1 \<le> int j \<and> int j < x1 + pw)
          \<longrightarrow> rows out ! i ! j = [128, 128, 128]"
      using out(5) gray by simp
  qed
qed


theorem canvas_gray_outside_paste_witness:
  "(\<exists>v1 v2 v3 canvas x1 x2 y1 y2 out.
      resize_type (Some \<lparr>shape = (2, 2, 3), rows = [[[1, 2, 3], [4, 5, 6]], [[7, 8, 9], [10, 11, 12]]]\<rparr>)
        (8, 4) (Fin (3 / 4)) (Fin 2) Map.empty = Inr v1
    \<and> add_pip_vars v1 = Inr v2
    \<and> v2 ''canvas'' = Some (VArr canvas)
    \<and> shape canvas = (8, 4, 3)
    \<and> rows canvas = replicate (nat 8) (replicate (nat 4) [128, 128, 128])
    \<and> v2 ''pip_coords'' = Some (VCoords x1 x2 y1 y2)
    \<and> process_image (\<lambda>a d. np_full (snd d, fst d, 3) 7) v2 = Inr (v3, out)
    \<and> v3 ''canvas'' = Some (VArr out)
    \<and> shape out = (8, 4, 3)
    \<and> length (rows out) = nat 8
    \<and> (\<forall>i < nat 8. length (rows out ! i) = nat 4)
    \<and> (\<forall>i < nat 8. \<forall>j < nat 4.
          \<not> (y1 \<le> int i \<and> int i < y2 \<and> x1 \<le> int j \<and> int j < x2)
          \<longrightarrow> rows out ! i ! j = [128, 128, 128]))
   \<and> (case bind_err (resize_type (Some \<lparr>shape = (2, 2, 3),
                rows = [[[1, 2, 3], [4, 5, 6]], [[7, 8, 9], [10, 11, 12]]]\<rparr>)
              (8, 4) (Fin (3 / 4)) (Fin 2) Map.empty)
            (\<lambda>v1. bind_err (add_pip_vars v1) (process_image (\<lambda>a d. np_full (snd d, fst d, 3) 7))) of
         Inl e \<Rightarrow> False
       | Inr (v3, out) \<Rightarrow>
           v3 ''pip_coords'' = Some (VCoords 0 3 2 5)
         \<and> rows out ! 1 = [[128, 128, 128], [128, 128, 128], [128, 128, 128], [128, 128, 128]]
         \<and> rows out ! 2 = [[7, 7, 7], [7, 7, 7], [7, 7, 7], [128, 128, 128]])"
proof (rule conjI)
  have e: "planFit_destination (2, 2) (8, 4) (3 / 4) = (3, 3)" by code_simp
  have r: "np_full (3, 3, 3) 7 = Inr \<lparr>shape = (3, 3, 3), rows = replicate 3 (replicate 3 (replicate 3 7))\<rparr>"
    by (simp add: np_full_def)
  show "\<exists>v1 v2 v3 canvas x1 x2 y1 y2 out.
      resize_type (Some \<lparr>shape = (2, 2, 3), rows = [[[1, 2, 3], [4, 5, 6]], [[7, 8, 9], [10, 11, 12]]]\<rparr>)
        (8, 4) (Fin (3 / 4)) (Fin 2) Map.empty = Inr v1
    \<and> add_pip_vars v1 = Inr v2
    \<and> v2 ''canvas'' = Some (VArr canvas)
    \<and> shape canvas = (8, 4, 3)
    \<and> rows canvas = replicate (nat 8) (replicate (nat 4) [128, 128, 128])
    \<and> v2 ''pip_coords'' = Some (VCoords x1 x2 y1 y2)
    \<and> process_image (\<lambda>a d. np_full (snd d, fst d, 3) 7) v2 = Inr (v3, out)
    \<and> v3 ''canvas'' = Some (VArr out)
    \<and> shape out = (8, 4, 3)
    \<and> length (rows out) = nat 8
    \<and> (\<forall>i < nat 8. length (rows out ! i) = nat 4)
    \<and> (\<forall>i < nat 8. \<forall>j < nat 4.
          \<not> (y1 \<le> int i \<and> int i < y2 \<and> x1 \<le> int j \<and> int j < x2)
          \<longrightarrow> rows out ! i ! j = [128, 128, 128])"
    by (rule canvas_gray_outside_paste [where h = 2 and w = 2 and c = 3 and ph = 3 and pw = 3
          and resized = "\<lparr>shape = (3, 3, 3), rows = replicate 3 (replicate 3 (replicate 3 7))\<rparr>"])
       (simp_all add: e r)
  show "case bind_err (resize_type (Some \<lparr>shape = (2, 2, 3),
                rows = [[[1, 2, 3], [4, 5, 6]], [[7, 8, 9], [10, 11, 12]]]\<rparr>)
              (8, 4) (Fin (3 / 4)) (Fin 2) Map.empty)
            (\<lambda>v1. bind_err (add_pip_vars v1) (process_image (\<lambda>a d. np_full (snd d, fst d, 3) 7))) of
         Inl e \<Rightarrow> False
       | Inr (v3, out) \<Rightarrow>
           v3 ''pip_coords'' = Some (VCoords 0 3 2 5)
         \<and> rows out ! 1 = [[128, 128, 128], [128, 128, 128], [128, 128, 128], [128, 128, 128]]
         \<and> rows out ! 2 = [[7, 7, 7], [7, 7, 7], [7, 7, 7], [128, 128, 128]]"
    by code_simp
qed

text \<open>
  Claim C10. The fit plan that \<open>resize_type\<close> leaves in the dictionary, or the error it
  raises, is the same whatever the shared dictionary held before the call: the four
  fields depend on the arguments only, so a repeated call with the same arguments gives
  the same plan.
\<close>

theorem resize_type_state_independent:
  "map_sum id fit_plan (resize_type img_obj defined_res factor tolerance vars1)
   = map_sum id fit_plan (resize_type img_obj defined_res factor tolerance vars2)"
  by (simp add: resize_type_def bind_err_def fit_plan_def set_resize_validity_def
           proposed_resize_dir_def Let_def
           split: option.splits sum.splits)

end
